theory Spec2Isabelle
  imports Complex_Main
begin

section \<open>Numeric conventions\<close>

text \<open>
  The demodulator computes on C++ \<^verbatim>\<open>float\<close> and \<^verbatim>\<open>std::complex<float>\<close>.
  They are embedded as \<^typ>\<open>real\<close> and \<^typ>\<open>complex\<close>. The signal path (the FFTs, the
  correlations, the averages) is computed exactly; the rounding of \<^verbatim>\<open>float\<close> is
  represented where a stored value is compared for equality: in steps 8 to 10 of
  \<^verbatim>\<open>RunCoarseFreqSync\<close> and in \<open>convert_to_viterbi_bit_binary32\<close> (by \<open>binary32_round\<close>
  below). Infinities and NaN are not represented (\<^verbatim>\<open>log10(0)\<close>, minus infinity in C++, is
  the value of \<open>log 10 0\<close> of HOL).
  Sizes (\<^verbatim>\<open>size_t\<close>) are \<^typ>\<open>nat\<close> and \<^verbatim>\<open>int\<close> values are \<^typ>\<open>int\<close>, both
  unbounded: the counters and the sample indices of the demodulator stay far below the
  machine limits. The threads are not represented: a function of the embedding is one
  step of one thread, and a wait on a barrier returns.
\<close>

text \<open>The conversion \<^verbatim>\<open>int(v)\<close> of a float: the fractional part is discarded. (C++ leaves
  the conversion of a value beyond the range of \<^verbatim>\<open>int\<close> undefined; where a statement is
  about every configuration, it is made for every \<^verbatim>\<open>int\<close> the conversion can produce.)\<close>

definition float_to_int :: "real \<Rightarrow> int" where
  "float_to_int v = (if 0 \<le> v then \<lfloor>v\<rfloor> else \<lceil>v\<rceil>)"

text \<open>The operator \<^verbatim>\<open>%\<close> of C++ on \<^verbatim>\<open>int\<close>: the quotient is truncated towards zero,
  so the remainder has the sign of the dividend.\<close>

definition c_rem :: "int \<Rightarrow> int \<Rightarrow> int" where
  "c_rem a b = sgn a * (\<bar>a\<bar> mod \<bar>b\<bar>)"

text \<open>\<^verbatim>\<open>std::fmod(x, y)\<close>: \<open>x - n * y\<close> where \<open>n\<close> is \<open>x / y\<close> with its fractional part
  discarded. (For \<open>y = 0\<close> the library returns NaN, which the embedding does not represent;
  that case is excluded where it matters by \<open>0 < nb_fft\<close>.)\<close>

definition c_fmod :: "real \<Rightarrow> real \<Rightarrow> real" where
  "c_fmod x y = x - real_of_int (float_to_int (x / y)) * y"

text \<open>\<^verbatim>\<open>std::atan2(y, x)\<close>: the principal argument of \<open>x + y\<i>\<close>, with \<open>atan2(0, 0) = 0\<close>.\<close>

definition c_atan2 :: "real \<Rightarrow> real \<Rightarrow> real" where
  "c_atan2 y x = Arg (Complex x y)"

definition TWO_PI :: real where
  "TWO_PI = pi * 2"

text \<open>
  The arithmetic of \<^verbatim>\<open>float\<close> (IEEE 754 binary32): the exact result of an operation is
  rounded to the nearest value of the format, a tie going to the value with an even
  significand. A value of the format is \<open>m * 2 ^ e\<close> with \<open>\<bar>m\<bar> < 2 ^ 24\<close> and
  \<open>e \<ge> -149\<close>. \<open>round_significand\<close> rounds a non-negative value counted in units of
  \<open>2 ^ -149\<close>: below \<open>2 ^ 24\<close> units (the subnormal values and the first binade) to an
  integer, above by halving until the significand has 24 bits. The exponent is not
  bounded above: an overflow to infinity is not represented.
\<close>

definition round_half_even :: "real \<Rightarrow> int" where
  "round_half_even v =
     (let f = \<lfloor>v\<rfloor>; d = v - real_of_int f
      in if d < 1 / 2 then f else if 1 / 2 < d then f + 1 else if even f then f else f + 1)"

function round_significand :: "real \<Rightarrow> real" where
  "round_significand s =
     (if s < 2 ^ 24 then real_of_int (round_half_even s) else 2 * round_significand (s / 2))"
  by pat_completeness auto
termination
proof (relation "measure (\<lambda>s. nat \<lfloor>s\<rfloor>)")
  show "wf (measure (\<lambda>s. nat \<lfloor>s::real\<rfloor>))" by simp
next
  fix s :: real
  assume "\<not> s < 2 ^ 24"
  then have s: "2 ^ 24 \<le> s" by simp
  then have "s / 2 \<le> s - 1" by simp
  then have "\<lfloor>s / 2\<rfloor> \<le> \<lfloor>s - 1\<rfloor>" by (rule floor_mono)
  moreover have "0 < \<lfloor>s\<rfloor>" using s by (simp add: floor_less_iff not_less [symmetric] less_floor_iff)
  ultimately show "(s / 2, s) \<in> measure (\<lambda>s. nat \<lfloor>s\<rfloor>)" by simp
qed

definition binary32_round :: "real \<Rightarrow> real" where
  "binary32_round v = sgn v * round_significand (\<bar>v\<bar> * 2 ^ 149) / 2 ^ 149"

text \<open>The conversions \<^verbatim>\<open>float(i)\<close> of an integer and of a size, and the four operations on
  two values of \<^verbatim>\<open>float\<close>. (A quotient by zero, infinite or NaN in C++, is the value of
  \<open>x / 0\<close> of HOL.)\<close>

definition float_of_int :: "int \<Rightarrow> real" where
  "float_of_int i = binary32_round (real_of_int i)"

definition float_of_size :: "nat \<Rightarrow> real" where
  "float_of_size n = binary32_round (real n)"

definition float_add :: "real \<Rightarrow> real \<Rightarrow> real" where
  "float_add a b = binary32_round (a + b)"

definition float_sub :: "real \<Rightarrow> real \<Rightarrow> real" where
  "float_sub a b = binary32_round (a - b)"

definition float_mul :: "real \<Rightarrow> real \<Rightarrow> real" where
  "float_mul a b = binary32_round (a * b)"

definition float_div :: "real \<Rightarrow> real \<Rightarrow> real" where
  "float_div a b = binary32_round (a / b)"

section \<open>Faults and spans\<close>

text \<open>
  What C++ leaves undefined is a value of the embedding: an access outside a span, the
  quotient of a float by zero that is then converted to an integer, and the conversion of
  a float outside the range of the integer type. A computation returns \<open>Inl\<close> of the
  fault it reaches first, or \<open>Inr\<close> of its result.
\<close>

datatype fault = OutOfBounds | DivisionByZero | ConversionOutOfRange

definition bindE :: "fault + 'a \<Rightarrow> ('a \<Rightarrow> fault + 'b) \<Rightarrow> fault + 'b" where
  "bindE m f = (case m of Inl e \<Rightarrow> Inl e | Inr v \<Rightarrow> f v)"

text \<open>\<^verbatim>\<open>xs[i]\<close> read and written, and \<^verbatim>\<open>xs.subspan(offset, count)\<close>.\<close>

definition span_read :: "'a list \<Rightarrow> int \<Rightarrow> fault + 'a" where
  "span_read xs i = (if 0 \<le> i \<and> i < int (length xs) then Inr (xs ! nat i) else Inl OutOfBounds)"

definition span_write :: "'a list \<Rightarrow> int \<Rightarrow> 'a \<Rightarrow> fault + 'a list" where
  "span_write xs i v =
     (if 0 \<le> i \<and> i < int (length xs) then Inr (xs[nat i := v]) else Inl OutOfBounds)"

definition subspan :: "'a list \<Rightarrow> nat \<Rightarrow> nat \<Rightarrow> fault + 'a list" where
  "subspan xs offset count =
     (if offset + count \<le> length xs then Inr (take count (drop offset xs)) else Inl OutOfBounds)"

text \<open>A subspan is a view: what is written through it lands in the buffer it was cut from.\<close>

definition subspan_store :: "'a list \<Rightarrow> nat \<Rightarrow> 'a list \<Rightarrow> 'a list" where
  "subspan_store xs offset ys = take offset xs @ ys @ drop (offset + length ys) xs"

section \<open>Soft decision bits\<close>

text \<open>
  The type \<^verbatim>\<open>viterbi_bit_t\<close> and the constant \<^verbatim>\<open>SOFT_DECISION_VITERBI_HIGH\<close> are declared
  in a header outside the sources at hand. Both are parameters here: \<open>HIGH\<close> is the
  constant, \<open>w\<close> the width in bits of the signed integer type.

  The cast \<^verbatim>\<open>(viterbi_bit_t)(v)\<close> discards the fractional part of \<open>v\<close>; the result is
  defined only when it is a value of the type. In \<open>convert_to_viterbi_bit\<close> the product
  is the exact one, as in the signal path that calls it.
\<close>

definition cast_viterbi_bit :: "nat \<Rightarrow> real \<Rightarrow> fault + int" where
  "cast_viterbi_bit w v =
     (let t = float_to_int v
      in if - (2 ^ (w - 1)) \<le> t \<and> t < 2 ^ (w - 1) then Inr t else Inl ConversionOutOfRange)"

definition convert_to_viterbi_bit :: "int \<Rightarrow> nat \<Rightarrow> real \<Rightarrow> fault + int" where
  "convert_to_viterbi_bit HIGH w x =
     (let scale = real_of_int HIGH;
          v = - x * scale
      in cast_viterbi_bit w v)"

text \<open>The same function with the arithmetic of \<^verbatim>\<open>float\<close>: \<open>scale\<close> is the constant converted
  to \<^verbatim>\<open>float\<close>, and the product is rounded to binary32 before the cast discards its
  fractional part.\<close>

definition convert_to_viterbi_bit_binary32 :: "int \<Rightarrow> nat \<Rightarrow> real \<Rightarrow> fault + int" where
  "convert_to_viterbi_bit_binary32 HIGH w x =
     (let scale = float_of_int HIGH;
          v = float_mul (- x) scale
      in cast_viterbi_bit w v)"

text \<open>The conversion as the specification words it: \<open>round(-x * HIGH)\<close> clamped into
  \<open>[-HIGH, +HIGH]\<close>.\<close>

definition spec_convert_to_viterbi_bit :: "int \<Rightarrow> real \<Rightarrow> int" where
  "spec_convert_to_viterbi_bit HIGH x =
     max (- HIGH) (min HIGH (round (- x * real_of_int HIGH)))"

section \<open>Parameters and configuration\<close>

text \<open>\<^verbatim>\<open>OFDM_Params\<close>: the fields the demodulator reads.\<close>

record OFDM_Params =
  nb_fft :: nat
  nb_cyclic_prefix :: nat
  nb_symbol_period :: nat
  nb_null_period :: nat
  nb_frame_symbols :: nat
  nb_data_carriers :: nat

section \<open>Pipeline workers\<close>

text \<open>\<^verbatim>\<open>OFDM_Demod_Pipeline\<close>: a worker and its half-open range of symbols.\<close>

record OFDM_Demod_Pipeline =
  symbol_start :: nat
  symbol_end :: nat

text \<open>The loop of \<^verbatim>\<open>CreateThreads\<close> that carves the symbols into ranges, one per worker.
  \<^verbatim>\<open>std::ceil((float)a / (float)b)\<close> is the ceiling of the exact quotient.\<close>

function CreateThreads_loop :: "nat \<Rightarrow> nat \<Rightarrow> nat \<Rightarrow> nat \<Rightarrow> OFDM_Demod_Pipeline list" where
  "CreateThreads_loop nb_syms nb_threads i sym_start =
     (if i < nb_threads then
        (let is_last_thread = (int i = int nb_threads - 1);
             nb_syms_remain = int nb_syms - int sym_start;
             nb_threads_remain = int nb_threads - int i;
             nb_syms_in_thread = \<lceil>real_of_int nb_syms_remain / real_of_int nb_threads_remain\<rceil>;
             sym_end = (if is_last_thread then nb_syms else nat (int sym_start + nb_syms_in_thread))
         in \<lparr>symbol_start = sym_start, symbol_end = sym_end\<rparr>
              # CreateThreads_loop nb_syms nb_threads (i + 1) sym_end)
      else [])"
  by pat_completeness auto
termination
  by (relation "measure (\<lambda>(nb_syms, nb_threads, i, sym_start). nb_threads - i)") auto

text \<open>\<^verbatim>\<open>CreateThreads\<close>: the number of workers and their ranges.
  \<open>total_system_threads\<close> is the value of \<^verbatim>\<open>std::thread::hardware_concurrency()\<close>.\<close>

definition nb_pipeline_threads :: "OFDM_Params \<Rightarrow> int \<Rightarrow> nat \<Rightarrow> int" where
  "nb_pipeline_threads params nb_desired_threads total_system_threads =
     (let nb_syms = int (nb_frame_symbols params) + 1
      in if nb_desired_threads > 0 then min nb_syms nb_desired_threads
         else (let nb_threads = min nb_syms (int total_system_threads)
               in if nb_threads > 1 then nb_threads - 1 else nb_threads))"

definition CreateThreads :: "OFDM_Params \<Rightarrow> int \<Rightarrow> nat \<Rightarrow> OFDM_Demod_Pipeline list" where
  "CreateThreads params nb_desired_threads total_system_threads =
     CreateThreads_loop (nb_frame_symbols params + 1)
       (nat (nb_pipeline_threads params nb_desired_threads total_system_threads)) 0 0"

section \<open>Differential demodulation and demapping\<close>

text \<open>\<^verbatim>\<open>CalculateDQPSK(in0, in1, out_vec)\<close>: the loop over the carriers \<open>-M \<dots> M\<close>, the DC bin
  skipped, \<open>subcarrier_index\<close> counting the entries written.\<close>

function CalculateDQPSK_loop ::
  "int \<Rightarrow> int \<Rightarrow> complex list \<Rightarrow> complex list \<Rightarrow> int \<Rightarrow> int \<Rightarrow> complex list
    \<Rightarrow> fault + complex list" where
  "CalculateDQPSK_loop M N_fft in0 in1 i subcarrier_index out_vec =
     (if i \<le> M then
        (if i = 0 then CalculateDQPSK_loop M N_fft in0 in1 (i + 1) subcarrier_index out_vec
         else
           (let fft_index = c_rem (N_fft + i) N_fft
            in bindE (span_read in1 fft_index) (\<lambda>z1.
               bindE (span_read in0 fft_index) (\<lambda>z0.
               let phase_delta_vec = z1 * cnj z0
               in bindE (span_write out_vec subcarrier_index phase_delta_vec) (\<lambda>out_vec'.
                  CalculateDQPSK_loop M N_fft in0 in1 (i + 1) (subcarrier_index + 1) out_vec')))))
      else Inr out_vec)"
  by pat_completeness auto
termination
  by (relation "measure (\<lambda>(M, N_fft, in0, in1, i, k, out_vec). nat (M + 1 - i))") auto

definition CalculateDQPSK ::
  "OFDM_Params \<Rightarrow> complex list \<Rightarrow> complex list \<Rightarrow> complex list \<Rightarrow> fault + complex list" where
  "CalculateDQPSK params in0 in1 out_vec =
     (let M = int (nb_data_carriers params) div 2;
          N_fft = int (nb_fft params)
      in CalculateDQPSK_loop M N_fft in0 in1 (- M) 0 out_vec)"

text \<open>The body of the loop of \<^verbatim>\<open>CalculateViterbiBits\<close> for one element \<open>vec\<close>: the two soft
  bits. \<open>vec / A\<close> divides both parts by the float \<open>A\<close>; no branch guards \<open>A = 0\<close>.\<close>

definition complex_div_float :: "complex \<Rightarrow> real \<Rightarrow> fault + complex" where
  "complex_div_float vec A =
     (if A = 0 then Inl DivisionByZero else Inr (Complex (Re vec / A) (Im vec / A)))"

definition viterbi_bits_of_carrier :: "int \<Rightarrow> nat \<Rightarrow> complex \<Rightarrow> fault + int \<times> int" where
  "viterbi_bits_of_carrier HIGH w vec =
     (let A = max \<bar>Re vec\<bar> \<bar>Im vec\<bar>
      in bindE (complex_div_float vec A) (\<lambda>norm_vec.
         bindE (convert_to_viterbi_bit HIGH w (Re norm_vec)) (\<lambda>b0.
         bindE (convert_to_viterbi_bit HIGH w (- Im norm_vec)) (\<lambda>b1.
         Inr (b0, b1)))))"

function CalculateViterbiBits_loop ::
  "nat \<Rightarrow> int list \<Rightarrow> int \<Rightarrow> nat \<Rightarrow> complex list \<Rightarrow> nat \<Rightarrow> int list \<Rightarrow> fault + int list" where
  "CalculateViterbiBits_loop N carrier_mapper HIGH w vec_buf i bit_buf =
     (if i < N then
        bindE (span_read carrier_mapper (int i)) (\<lambda>j.
        bindE (span_read vec_buf j) (\<lambda>vec.
        bindE (viterbi_bits_of_carrier HIGH w vec) (\<lambda>(b0, b1).
        bindE (span_write bit_buf (int i) b0) (\<lambda>bit_buf'.
        bindE (span_write bit_buf' (int (i + N)) b1) (\<lambda>bit_buf''.
        CalculateViterbiBits_loop N carrier_mapper HIGH w vec_buf (i + 1) bit_buf'')))))
      else Inr bit_buf)"
  by pat_completeness auto
termination
  by (relation "measure (\<lambda>(N, carrier_mapper, HIGH, w, vec_buf, i, bit_buf). N - i)") auto

definition CalculateViterbiBits ::
  "OFDM_Params \<Rightarrow> int list \<Rightarrow> int \<Rightarrow> nat \<Rightarrow> complex list \<Rightarrow> int list \<Rightarrow> fault + int list" where
  "CalculateViterbiBits params carrier_mapper HIGH w vec_buf bit_buf =
     CalculateViterbiBits_loop (nb_data_carriers params) carrier_mapper HIGH w vec_buf 0 bit_buf"

text \<open>The buffers the workers share, and the body of the \<^verbatim>\<open>calculate_dqpsk\<close> lambda of
  \<^verbatim>\<open>PipelineThread\<close> for the symbol pair \<open>(i, i + 1)\<close>. The lambda hands the FFT of symbol
  \<open>i + 1\<close> to \<^verbatim>\<open>CalculateDQPSK\<close> as \<open>in0\<close> and the FFT of symbol \<open>i\<close> as \<open>in1\<close>.\<close>

record pipeline_buffers =
  pipeline_fft_buffer :: "complex list"
  pipeline_dqpsk_vec_buffer :: "complex list"
  pipeline_out_bits :: "int list"

definition calculate_dqpsk_vec :: "OFDM_Params \<Rightarrow> pipeline_buffers \<Rightarrow> nat \<Rightarrow> fault + complex list" where
  "calculate_dqpsk_vec params bufs i =
     bindE (subspan (pipeline_fft_buffer bufs) ((i + 0) * nb_fft params) (nb_fft params)) (\<lambda>fft_buf_0.
     bindE (subspan (pipeline_fft_buffer bufs) ((i + 1) * nb_fft params) (nb_fft params)) (\<lambda>fft_buf_1.
     bindE (subspan (pipeline_dqpsk_vec_buffer bufs) (i * nb_data_carriers params)
              (nb_data_carriers params)) (\<lambda>dqpsk_vec_buf.
     CalculateDQPSK params fft_buf_1 fft_buf_0 dqpsk_vec_buf)))"

definition calculate_dqpsk_symbol ::
  "OFDM_Params \<Rightarrow> int list \<Rightarrow> int \<Rightarrow> nat \<Rightarrow> pipeline_buffers \<Rightarrow> nat \<Rightarrow> fault + pipeline_buffers" where
  "calculate_dqpsk_symbol params carrier_mapper HIGH w bufs i =
     (let nb_viterbi_bits = nb_data_carriers params * 2
      in bindE (calculate_dqpsk_vec params bufs i) (\<lambda>dqpsk_vec_buf.
         bindE (subspan (pipeline_out_bits bufs) (i * nb_viterbi_bits) nb_viterbi_bits) (\<lambda>viterbi_bit_buf.
         bindE (CalculateViterbiBits params carrier_mapper HIGH w dqpsk_vec_buf viterbi_bit_buf) (\<lambda>bits.
         Inr (bufs\<lparr>pipeline_dqpsk_vec_buffer :=
                      subspan_store (pipeline_dqpsk_vec_buffer bufs) (i * nb_data_carriers params) dqpsk_vec_buf,
                    pipeline_out_bits :=
                      subspan_store (pipeline_out_bits bufs) (i * nb_viterbi_bits) bits\<rparr>)))))"

fun calculate_dqpsk ::
  "OFDM_Params \<Rightarrow> int list \<Rightarrow> int \<Rightarrow> nat \<Rightarrow> pipeline_buffers \<Rightarrow> nat list \<Rightarrow> fault + pipeline_buffers" where
  "calculate_dqpsk params carrier_mapper HIGH w bufs [] = Inr bufs"
| "calculate_dqpsk params carrier_mapper HIGH w bufs (i # rest) =
     bindE (calculate_dqpsk_symbol params carrier_mapper HIGH w bufs i) (\<lambda>bufs'.
       calculate_dqpsk params carrier_mapper HIGH w bufs' rest)"


section \<open>The demodulator\<close>

subsection \<open>Configuration and the FFT primitive\<close>

text \<open>\<^verbatim>\<open>OFDM_Demod_Config\<close>, declared in a header outside the sources at hand: the options
  the demodulator reads. The two counts are sizes; no computation on sizes overflows in
  the embedding.\<close>

record OFDM_Demod_Config =
  signal_l1_nb_samples :: nat
  signal_l1_nb_decimate :: nat
  signal_l1_update_beta :: real
  null_l1_search_thresh_null_start :: real
  null_l1_search_thresh_null_end :: real
  sync_is_coarse_freq_correction :: bool
  sync_max_coarse_freq_correction_norm :: real
  sync_coarse_freq_slow_beta :: real
  sync_impulse_peak_threshold_db :: real
  sync_impulse_peak_distance_probability :: real
  sync_fine_freq_update_beta :: real

text \<open>The FFT is the library FFTW, an opaque transform of \<open>nb_fft\<close> values: the two plans
  are parameters.\<close>

record fft_plans =
  fft_plan :: "complex list \<Rightarrow> complex list"
  ifft_plan :: "complex list \<Rightarrow> complex list"

definition CalculateFFT :: "OFDM_Params \<Rightarrow> fft_plans \<Rightarrow> complex list \<Rightarrow> complex list" where
  "CalculateFFT params plans fft_in = fft_plan plans (take (nb_fft params) fft_in)"

definition CalculateIFFT :: "OFDM_Params \<Rightarrow> fft_plans \<Rightarrow> complex list \<Rightarrow> complex list" where
  "CalculateIFFT params plans fft_in = ifft_plan plans (take (nb_fft params) fft_in)"

subsection \<open>Math primitives\<close>

text \<open>Modelled from the spec: \<^verbatim>\<open>apply_pll_auto\<close> and \<^verbatim>\<open>complex_conj_mul_sum_auto\<close> live in
  headers outside the sources at hand. The specification gives
  \<open>y[n] = x[n] * exp (j * 2 * pi * (dt0 + n * f))\<close> and \<open>\<Sum> conj (a[k]) * b[k]\<close>.\<close>

definition ApplyPLL :: "complex list \<Rightarrow> real \<Rightarrow> real \<Rightarrow> complex list" where
  "ApplyPLL x f dt0 = map (\<lambda>n. x ! n * cis (2 * pi * (dt0 + real n * f))) [0..<length x]"

definition complex_conj_mul_sum :: "complex list \<Rightarrow> complex list \<Rightarrow> complex" where
  "complex_conj_mul_sum a b = fold (\<lambda>k acc. acc + cnj (a ! k) * b ! k) [0..<length a] 0"

text \<open>The helpers of \<^verbatim>\<open>OFDM_Demod\<close>. \<^verbatim>\<open>CalculateRelativePhase\<close> writes \<open>arg_out[N - 1]\<close>
  last, so it needs \<open>N \<ge> 1\<close>; \<^verbatim>\<open>RunCoarseFreqSync\<close> runs it in place, where every entry
  is read before it is overwritten.\<close>

definition CalculateRelativePhase :: "OFDM_Params \<Rightarrow> complex list \<Rightarrow> fault + complex list" where
  "CalculateRelativePhase params fft_in =
     (let N = int (nb_fft params);
          arg_out = map (\<lambda>i. cnj (fft_in ! i) * fft_in ! (i + 1)) [0..<nat (N - 1)]
      in if N - 1 < 0 then Inl OutOfBounds else Inr (arg_out @ [0]))"

definition CalculateMagnitude :: "OFDM_Params \<Rightarrow> complex list \<Rightarrow> real list" where
  "CalculateMagnitude params fft_buf =
     (let N = nb_fft params; M = N div 2
      in map (\<lambda>i. let j = (i + M) mod N in 20 * log 10 (cmod (fft_buf ! j))) [0..<N])"

definition CalculateL1Average :: "complex list \<Rightarrow> real" where
  "CalculateL1Average block =
     fold (\<lambda>v l1_avg. l1_avg + (\<bar>Re v\<bar> + \<bar>Im v\<bar>)) block 0 / real (length block)"

definition CalculateCyclicPhaseError :: "OFDM_Params \<Rightarrow> complex list \<Rightarrow> real" where
  "CalculateCyclicPhaseError params sym_buf =
     (let N = nb_cyclic_prefix params; M = nb_fft params;
          x0 = take N (drop M sym_buf); x1 = take N sym_buf;
          error_vec = complex_conj_mul_sum x0 x1
      in c_atan2 (Im error_vec) (Re error_vec))"

definition CalculateFineFrequencyError :: "OFDM_Params \<Rightarrow> real \<Rightarrow> real" where
  "CalculateFineFrequencyError params cyclic_phase_error =
     (let fft_bin_spacing = 1 / real (nb_fft params);
          fine_frequency_error = fft_bin_spacing * cyclic_phase_error / TWO_PI
      in fine_frequency_error)"

subsection \<open>Buffers\<close>

text \<open>Modelled from the spec: the buffer classes are declared in headers outside the
  sources at hand. \<open>correlation_time_buffer\<close> is a linear buffer of
  \<open>nb_null_period + nb_symbol_period\<close> samples and a frame buffer holds one frame
  (\<open>nb_frame_symbols\<close> symbol periods and the NULL period, the frame size of
  \<^verbatim>\<open>simulate_transmitter.cpp\<close>): a storage of fixed capacity and the number of samples
  held. \<^verbatim>\<open>ConsumeBuffer\<close> appends samples until the buffer is full and returns how many it
  took.\<close>

record sample_buffer =
  buf_data :: "complex list"
  buf_length :: nat

definition Capacity :: "sample_buffer \<Rightarrow> nat" where
  "Capacity b = length (buf_data b)"

definition IsFull :: "sample_buffer \<Rightarrow> bool" where
  "IsFull b = (Capacity b \<le> buf_length b)"

definition SetLength :: "nat \<Rightarrow> sample_buffer \<Rightarrow> sample_buffer" where
  "SetLength L b = b\<lparr>buf_length := L\<rparr>"

definition ConsumeBuffer :: "sample_buffer \<Rightarrow> complex list \<Rightarrow> nat \<times> sample_buffer" where
  "ConsumeBuffer b src =
     (let nb_read = min (Capacity b - buf_length b) (length src)
      in (nb_read,
          \<lparr>buf_data = subspan_store (buf_data b) (buf_length b) (take nb_read src),
           buf_length = buf_length b + nb_read\<rparr>))"

definition frame_size :: "OFDM_Params \<Rightarrow> nat" where
  "frame_size params = nb_null_period params + nb_symbol_period params * nb_frame_symbols params"

definition GetNullSymbol :: "OFDM_Params \<Rightarrow> sample_buffer \<Rightarrow> fault + complex list" where
  "GetNullSymbol params b =
     subspan (buf_data b) (nb_frame_symbols params * nb_symbol_period params) (nb_null_period params)"

text \<open>Modelled from the spec: \<open>null_power_dip_buffer\<close> is a circular buffer of \<open>nb_null_period\<close>
  samples. \<^verbatim>\<open>ConsumeBuffer(src, true)\<close> takes every sample, overwriting the oldest;
  \<^verbatim>\<open>GetIndex()\<close> is the position of the oldest sample of a full buffer and \<^verbatim>\<open>operator[]\<close>
  wraps around the capacity.\<close>

record circular_buffer =
  cb_data :: "complex list"
  cb_length :: nat
  cb_index :: nat

fun cb_ConsumeBuffer_all :: "circular_buffer \<Rightarrow> complex list \<Rightarrow> circular_buffer" where
  "cb_ConsumeBuffer_all b [] = b"
| "cb_ConsumeBuffer_all b (x # xs) =
     cb_ConsumeBuffer_all
       \<lparr>cb_data = (cb_data b)[cb_index b := x],
        cb_length = min (length (cb_data b)) (cb_length b + 1),
        cb_index = (cb_index b + 1) mod length (cb_data b)\<rparr> xs"

definition cb_at :: "circular_buffer \<Rightarrow> nat \<Rightarrow> complex" where
  "cb_at b j = cb_data b ! (j mod length (cb_data b))"

definition cb_SetLength0 :: "circular_buffer \<Rightarrow> circular_buffer" where
  "cb_SetLength0 b = b\<lparr>cb_length := 0, cb_index := 0\<rparr>"

subsection \<open>State\<close>

datatype State =
  FINDING_NULL_POWER_DIP
  | READING_NULL_AND_PRS
  | RUNNING_COARSE_FREQ_SYNC
  | RUNNING_FINE_TIME_SYNC
  | READING_SYMBOLS

text \<open>The fields of \<^verbatim>\<open>OFDM_Demod\<close> that the ingest thread and the coordinator read and
  write. \<^verbatim>\<open>std::swap(inactive_buffer_data, active_buffer_data)\<close> exchanges the storages, so
  the active buffer is its storage alone.\<close>

record OFDM_Demod =
  state :: State
  total_frames_desync :: int
  total_frames_read :: int
  is_found_coarse_freq_offset :: bool
  freq_coarse_offset :: real
  freq_fine_offset :: real
  fine_time_offset :: int
  is_null_start_found :: bool
  is_null_end_found :: bool
  signal_l1_average :: real
  null_power_dip_buffer :: circular_buffer
  correlation_time_buffer :: sample_buffer
  inactive_buffer :: sample_buffer
  active_buffer_data :: "complex list"
  correlation_prs_fft_reference :: "complex list"
  correlation_prs_time_reference :: "complex list"
  correlation_impulse_response :: "real list"
  correlation_frequency_response :: "real list"

text \<open>The constructor: the buffers allocated (their content, unspecified in C++, is zero
  here), the initial state of the demodulator and the two PRS references.\<close>

definition OFDM_Demod_init ::
  "OFDM_Params \<Rightarrow> fft_plans \<Rightarrow> complex list \<Rightarrow> fault + OFDM_Demod" where
  "OFDM_Demod_init params plans prs_fft_ref =
     bindE (CalculateRelativePhase params prs_fft_ref) (\<lambda>rel.
     Inr \<lparr>state = FINDING_NULL_POWER_DIP,
          total_frames_desync = 0,
          total_frames_read = 0,
          is_found_coarse_freq_offset = False,
          freq_coarse_offset = 0,
          freq_fine_offset = 0,
          fine_time_offset = 0,
          is_null_start_found = False,
          is_null_end_found = False,
          signal_l1_average = 0,
          null_power_dip_buffer =
            \<lparr>cb_data = replicate (nb_null_period params) 0, cb_length = 0, cb_index = 0\<rparr>,
          correlation_time_buffer =
            \<lparr>buf_data = replicate (nb_null_period params + nb_symbol_period params) 0,
             buf_length = 0\<rparr>,
          inactive_buffer = \<lparr>buf_data = replicate (frame_size params) 0, buf_length = 0\<rparr>,
          active_buffer_data = replicate (frame_size params) 0,
          correlation_prs_fft_reference =
            map (\<lambda>i. cnj (prs_fft_ref ! i)) [0..<nb_fft params],
          correlation_prs_time_reference =
            map (\<lambda>i. cnj (CalculateIFFT params plans rel ! i)) [0..<nb_fft params],
          correlation_impulse_response = replicate (nb_fft params) 0,
          correlation_frequency_response = replicate (nb_fft params) 0\<rparr>)"

definition Reset :: "OFDM_Demod \<Rightarrow> OFDM_Demod" where
  "Reset st =
     st\<lparr>state := FINDING_NULL_POWER_DIP,
        correlation_time_buffer := SetLength 0 (correlation_time_buffer st),
        total_frames_desync := total_frames_desync st + 1,
        is_found_coarse_freq_offset := False,
        freq_coarse_offset := 0,
        freq_fine_offset := 0,
        fine_time_offset := 0\<rparr>"

text \<open>\<^verbatim>\<open>UpdateFineFrequencyOffset\<close>. On the state a call is one step: the two writers are
  not interleaved. Its accesses are given below.\<close>

definition fft_bin_wrap :: "OFDM_Params \<Rightarrow> real" where
  "fft_bin_wrap params =
     (let fft_bin_spacing = 1 / real (nb_fft params);
          fft_bin_margin = 1.01
      in 0.5 * fft_bin_spacing * fft_bin_margin)"

definition UpdateFineFrequencyOffset :: "OFDM_Params \<Rightarrow> real \<Rightarrow> OFDM_Demod \<Rightarrow> OFDM_Demod" where
  "UpdateFineFrequencyOffset params delta st =
     st\<lparr>freq_fine_offset := c_fmod (freq_fine_offset st + delta) (fft_bin_wrap params)\<rparr>"

text \<open>The accesses of \<^verbatim>\<open>UpdateFineFrequencyOffset\<close> in program order: the \<^verbatim>\<open>scoped_lock\<close> on
  \<open>mutex_freq_fine_offset\<close> is taken, \<open>freq_fine_offset\<close> is stored to twice (by \<^verbatim>\<open>+=\<close> and
  by the assignment of the \<^verbatim>\<open>fmod\<close>), and the lock is released when the function
  returns.\<close>

datatype access =
    Lock_mutex_freq_fine_offset
  | Store_freq_fine_offset real
  | Unlock_mutex_freq_fine_offset

definition UpdateFineFrequencyOffset_accesses :: "OFDM_Params \<Rightarrow> real \<Rightarrow> OFDM_Demod \<Rightarrow> access list" where
  "UpdateFineFrequencyOffset_accesses params delta st =
     (let wrap = fft_bin_wrap params;
          sum = freq_fine_offset st + delta
      in [Lock_mutex_freq_fine_offset,
          Store_freq_fine_offset sum,
          Store_freq_fine_offset (c_fmod sum wrap),
          Unlock_mutex_freq_fine_offset])"

subsection \<open>The ingest state machine\<close>

text \<open>\<^verbatim>\<open>UpdateSignalAverage\<close>: the loop advances by \<open>L = K * nb_decimate\<close>, which the
  configuration can make zero.\<close>

partial_function (option) UpdateSignalAverage_loop ::
  "complex list \<Rightarrow> nat \<Rightarrow> nat \<Rightarrow> nat \<Rightarrow> real \<Rightarrow> nat \<Rightarrow> real \<Rightarrow> real option" where
  "UpdateSignalAverage_loop block K M L beta i average =
     (if i < M then
        (let l1_avg = CalculateL1Average (take K (drop i block))
         in UpdateSignalAverage_loop block K M L beta (i + L)
              (beta * average + (1 - beta) * l1_avg))
      else Some average)"

definition UpdateSignalAverage ::
  "OFDM_Demod_Config \<Rightarrow> complex list \<Rightarrow> OFDM_Demod \<Rightarrow> OFDM_Demod option" where
  "UpdateSignalAverage cfg block st =
     (let N = length block;
          K = signal_l1_nb_samples cfg
      in if N < K then Some st
         else (let M = N - K;
                   L = K * signal_l1_nb_decimate cfg;
                   beta = signal_l1_update_beta cfg
               in map_option (\<lambda>average. st\<lparr>signal_l1_average := average\<rparr>)
                    (UpdateSignalAverage_loop block K M L beta 0 (signal_l1_average st))))"

text \<open>\<^verbatim>\<open>FindNullPowerDip\<close>: the loop over blocks of \<open>K\<close> samples returns the two flags and
  \<open>nb_read\<close>; it advances by \<open>K\<close>.\<close>

partial_function (option) FindNullPowerDip_loop ::
  "complex list \<Rightarrow> int \<Rightarrow> int \<Rightarrow> real \<Rightarrow> real \<Rightarrow> int \<Rightarrow> bool \<Rightarrow> bool \<Rightarrow> int
    \<Rightarrow> (bool \<times> bool \<times> int) option" where
  "FindNullPowerDip_loop buf K M null_start_thresh null_end_thresh i start_found end_found nb_read =
     (if i < M then
        (let l1_avg = CalculateL1Average (take (nat K) (drop (nat i) buf))
         in if start_found then
              (if l1_avg > null_end_thresh then Some (start_found, True, i + K)
               else FindNullPowerDip_loop buf K M null_start_thresh null_end_thresh (i + K)
                      start_found end_found nb_read)
            else
              (if l1_avg < null_start_thresh then
                 FindNullPowerDip_loop buf K M null_start_thresh null_end_thresh (i + K)
                   True end_found nb_read
               else FindNullPowerDip_loop buf K M null_start_thresh null_end_thresh (i + K)
                      start_found end_found nb_read))
      else Some (start_found, end_found, nb_read))"

definition FindNullPowerDip ::
  "OFDM_Params \<Rightarrow> OFDM_Demod_Config \<Rightarrow> OFDM_Demod \<Rightarrow> complex list \<Rightarrow> (nat \<times> OFDM_Demod) option" where
  "FindNullPowerDip params cfg st buf =
     (let N = int (length buf);
          K = int (signal_l1_nb_samples cfg);
          M = N - K;
          null_start_thresh = signal_l1_average st * null_l1_search_thresh_null_start cfg;
          null_end_thresh = signal_l1_average st * null_l1_search_thresh_null_end cfg
      in case FindNullPowerDip_loop buf K M null_start_thresh null_end_thresh 0
                (is_null_start_found st) (is_null_end_found st) N of
           None \<Rightarrow> None
         | Some (start_found, end_found, nb_read) \<Rightarrow>
             (let dip = cb_ConsumeBuffer_all (null_power_dip_buffer st) (take (nat nb_read) buf);
                  st1 = st\<lparr>is_null_start_found := start_found, is_null_end_found := end_found,
                          null_power_dip_buffer := dip\<rparr>
              in if \<not> end_found then Some (nat nb_read, st1)
                 else
                   (let L = cb_length dip;
                        start_index = cb_index dip;
                        corr = fold (\<lambda>i d. d[i := cb_at dip (i + start_index)]) [0..<L]
                                 (buf_data (correlation_time_buffer st))
                    in Some (nat nb_read,
                         st1\<lparr>is_null_start_found := False,
                             is_null_end_found := False,
                             correlation_time_buffer := \<lparr>buf_data = corr, buf_length = L\<rparr>,
                             null_power_dip_buffer := cb_SetLength0 dip,
                             state := READING_NULL_AND_PRS\<rparr>))))"

definition ReadNullPRS :: "OFDM_Demod \<Rightarrow> complex list \<Rightarrow> nat \<times> OFDM_Demod" where
  "ReadNullPRS st buf =
     (let (nb_read, corr) = ConsumeBuffer (correlation_time_buffer st) buf;
          st1 = st\<lparr>correlation_time_buffer := corr\<rparr>
      in if \<not> IsFull corr then (nb_read, st1)
         else (nb_read, st1\<lparr>state := RUNNING_COARSE_FREQ_SYNC\<rparr>))"

text \<open>Step 7 of \<^verbatim>\<open>RunCoarseFreqSync\<close>: the search for the peak of
  \<open>correlation_frequency_response\<close>. \<open>raw_offset\<close> is the \<^verbatim>\<open>int\<close> that the conversion of
  \<open>max_coarse_freq_correction_norm * nb_fft\<close> produced, before it is clamped.\<close>

function coarse_peak_search_loop ::
  "real list \<Rightarrow> int \<Rightarrow> int \<Rightarrow> int \<Rightarrow> int \<Rightarrow> real \<Rightarrow> int \<Rightarrow> fault + real \<times> int" where
  "coarse_peak_search_loop response N_fft M max_carrier_offset i max_value max_index =
     (if i \<le> max_carrier_offset then
        (let fft_index = i + M
         in if fft_index = N_fft then
              coarse_peak_search_loop response N_fft M max_carrier_offset (i + 1) max_value max_index
            else
              bindE (span_read response fft_index) (\<lambda>v.
                if v > max_value then
                  coarse_peak_search_loop response N_fft M max_carrier_offset (i + 1) v i
                else
                  coarse_peak_search_loop response N_fft M max_carrier_offset (i + 1)
                    max_value max_index))
      else Inr (max_value, max_index))"
  by pat_completeness auto
termination
  by (relation "measure (\<lambda>(response, N_fft, M, mco, i, max_value, max_index). nat (mco + 1 - i))")
    auto

definition clamp_carrier_offset :: "OFDM_Params \<Rightarrow> int \<Rightarrow> int" where
  "clamp_carrier_offset params raw_offset =
     (let M = int (nb_fft params div 2);
          max_carrier_offset = (if raw_offset < 0 then 0 else raw_offset)
      in if max_carrier_offset > M then M else max_carrier_offset)"

definition coarse_peak_search :: "OFDM_Params \<Rightarrow> int \<Rightarrow> real list \<Rightarrow> fault + real \<times> int" where
  "coarse_peak_search params raw_offset response =
     (let M = int (nb_fft params div 2);
          max_carrier_offset = clamp_carrier_offset params raw_offset;
          max_index = - max_carrier_offset
      in bindE (span_read response (max_index + M)) (\<lambda>max_value.
           coarse_peak_search_loop response (int (nb_fft params)) M max_carrier_offset
             (- max_carrier_offset) max_value max_index))"

text \<open>Steps 1 to 6: the correlation of the received PRS against the reference, as a
  magnitude spectrum.\<close>

definition coarse_frequency_response ::
  "OFDM_Params \<Rightarrow> fft_plans \<Rightarrow> OFDM_Demod \<Rightarrow> fault + real list" where
  "coarse_frequency_response params plans st =
     bindE (subspan (buf_data (correlation_time_buffer st)) (nb_null_period params)
              (nb_symbol_period params)) (\<lambda>prs_sym.
     let fft1 = CalculateFFT params plans prs_sym
     in bindE (CalculateRelativePhase params fft1) (\<lambda>rel.
        let ifft1 = CalculateIFFT params plans rel;
            prod = map (\<lambda>i. ifft1 ! i * correlation_prs_time_reference st ! i) [0..<nb_fft params];
            fft2 = CalculateFFT params plans prod
        in Inr (CalculateMagnitude params fft2)))"

definition coarse_freq_peak ::
  "OFDM_Params \<Rightarrow> OFDM_Demod_Config \<Rightarrow> fft_plans \<Rightarrow> OFDM_Demod \<Rightarrow> fault + real list \<times> real \<times> int" where
  "coarse_freq_peak params cfg plans st =
     bindE (coarse_frequency_response params plans st) (\<lambda>response.
     let raw_offset = float_to_int (sync_max_coarse_freq_correction_norm cfg * real (nb_fft params))
     in bindE (coarse_peak_search params raw_offset response) (\<lambda>(max_value, max_index).
          Inr (response, max_value, max_index)))"

definition RunCoarseFreqSync ::
  "OFDM_Params \<Rightarrow> OFDM_Demod_Config \<Rightarrow> fft_plans \<Rightarrow> OFDM_Demod \<Rightarrow> fault + nat \<times> OFDM_Demod" where
  "RunCoarseFreqSync params cfg plans st =
     (if \<not> sync_is_coarse_freq_correction cfg then
        Inr (0, st\<lparr>freq_coarse_offset := 0, state := RUNNING_FINE_TIME_SYNC\<rparr>)
      else
        bindE (coarse_freq_peak params cfg plans st) (\<lambda>(response, max_value, max_index).
          let predicted_freq_coarse_offset =
                float_div (- float_of_int max_index) (float_of_size (nb_fft params));
              error = float_sub predicted_freq_coarse_offset (freq_coarse_offset st);
              large_offset_threshold = float_div 1.5 (float_of_size (nb_fft params));
              is_large_correction = \<bar>error\<bar> > large_offset_threshold;
              is_fast_update = is_large_correction \<or> \<not> is_found_coarse_freq_offset st;
              beta = (if is_fast_update then 1 else sync_coarse_freq_slow_beta cfg);
              delta = float_mul beta error;
              st1 = st\<lparr>correlation_frequency_response := response,
                      freq_coarse_offset := float_add (freq_coarse_offset st) delta,
                      is_found_coarse_freq_offset := True\<rparr>;
              st2 = UpdateFineFrequencyOffset params (- delta) st1
          in Inr (0, st2\<lparr>state := RUNNING_FINE_TIME_SYNC\<rparr>)))"

text \<open>\<^verbatim>\<open>RunFineTimeSync\<close>: the impulse response of the PRS, the loop that finds its weighted
  peak and its mean, and the decision.\<close>

definition fine_time_impulse_response ::
  "OFDM_Params \<Rightarrow> fft_plans \<Rightarrow> OFDM_Demod \<Rightarrow> fault + real list" where
  "fine_time_impulse_response params plans st =
     bindE (subspan (buf_data (correlation_time_buffer st)) (nb_null_period params)
              (nb_symbol_period params)) (\<lambda>corr_prs_buf.
     let freq_offset = freq_coarse_offset st + freq_fine_offset st;
         pll = ApplyPLL (take (nb_fft params) corr_prs_buf) freq_offset 0;
         fft1 = CalculateFFT params plans pll;
         prod = map (\<lambda>i. fft1 ! i * correlation_prs_fft_reference st ! i) [0..<nb_fft params];
         ifft1 = CalculateIFFT params plans prod
     in Inr (map (\<lambda>i. 20 * log 10 (cmod (ifft1 ! i))) [0..<nb_fft params]))"

definition impulse_peak_step ::
  "OFDM_Params \<Rightarrow> OFDM_Demod_Config \<Rightarrow> real list \<Rightarrow> nat \<Rightarrow> real \<times> real \<times> int \<Rightarrow> real \<times> real \<times> int" where
  "impulse_peak_step params cfg impulse i acc =
     (case acc of (impulse_avg, impulse_max_value, impulse_max_index) \<Rightarrow>
        let peak_value = impulse ! i;
            expected_peak_x = int (nb_cyclic_prefix params);
            distance_from_expectation = \<bar>expected_peak_x - int i\<bar>;
            norm_distance = real_of_int distance_from_expectation / real (nb_symbol_period params);
            decay_weight = 1 - sync_impulse_peak_distance_probability cfg;
            probability = 1 - decay_weight * norm_distance;
            weighted_peak_value = probability * peak_value
        in if weighted_peak_value > impulse_max_value
           then (impulse_avg + peak_value, weighted_peak_value, int i)
           else (impulse_avg + peak_value, impulse_max_value, impulse_max_index))"

definition impulse_peak ::
  "OFDM_Params \<Rightarrow> OFDM_Demod_Config \<Rightarrow> real list \<Rightarrow> fault + real \<times> real \<times> int" where
  "impulse_peak params cfg impulse =
     bindE (span_read impulse 0) (\<lambda>first.
       case fold (impulse_peak_step params cfg impulse) [0..<nb_fft params] (0, first, 0) of
         (impulse_avg, impulse_max_value, impulse_max_index) \<Rightarrow>
           Inr (impulse_avg / real (nb_fft params), impulse_max_value, impulse_max_index))"

definition int_subspan :: "'a list \<Rightarrow> int \<Rightarrow> int \<Rightarrow> fault + 'a list" where
  "int_subspan xs offset count =
     (if 0 \<le> offset \<and> 0 \<le> count then subspan xs (nat offset) (nat count) else Inl OutOfBounds)"

definition RunFineTimeSync ::
  "OFDM_Params \<Rightarrow> OFDM_Demod_Config \<Rightarrow> fft_plans \<Rightarrow> OFDM_Demod \<Rightarrow> fault + nat \<times> OFDM_Demod" where
  "RunFineTimeSync params cfg plans st =
     bindE (fine_time_impulse_response params plans st) (\<lambda>impulse.
     bindE (impulse_peak params cfg impulse) (\<lambda>(impulse_avg, impulse_max_value, impulse_max_index).
       let st1 = st\<lparr>correlation_impulse_response := impulse\<rparr>
       in if impulse_max_value - impulse_avg < sync_impulse_peak_threshold_db cfg then
            Inr (0, Reset st1)
          else
            (let offset = impulse_max_index - int (nb_cyclic_prefix params);
                 prs_start_index = int (nb_null_period params) + offset;
                 prs_length = int (nb_symbol_period params) - offset
             in bindE (int_subspan (buf_data (correlation_time_buffer st1)) prs_start_index prs_length)
                  (\<lambda>prs_buf.
                    let (n, inactive) = ConsumeBuffer (SetLength 0 (inactive_buffer st1)) prs_buf
                    in Inr (0, st1\<lparr>inactive_buffer := inactive,
                                  correlation_time_buffer := SetLength 0 (correlation_time_buffer st1),
                                  fine_time_offset := offset,
                                  state := READING_SYMBOLS\<rparr>)))))"

text \<open>\<^verbatim>\<open>ReadSymbols\<close>. When the frame is complete the ingest thread waits for the coordinator,
  exchanges the two storages and starts the coordinator; the wait returns once the
  coordinator has finished the frame before, and is a step here.\<close>

definition ReadSymbols :: "OFDM_Params \<Rightarrow> OFDM_Demod \<Rightarrow> complex list \<Rightarrow> fault + nat \<times> OFDM_Demod" where
  "ReadSymbols params st buf =
     (let (nb_read, inactive) = ConsumeBuffer (inactive_buffer st) buf;
          st1 = st\<lparr>inactive_buffer := inactive\<rparr>
      in if \<not> IsFull inactive then Inr (nb_read, st1)
         else
           bindE (GetNullSymbol params inactive) (\<lambda>null_sym.
             let corr = fold (\<lambda>i d. d[i := null_sym ! i]) [0..<nb_null_period params]
                          (buf_data (correlation_time_buffer st1))
             in Inr (nb_read,
                  st1\<lparr>correlation_time_buffer :=
                        \<lparr>buf_data = corr, buf_length = nb_null_period params\<rparr>,
                      active_buffer_data := buf_data inactive,
                      inactive_buffer := \<lparr>buf_data = active_buffer_data st1, buf_length = 0\<rparr>,
                      state := READING_NULL_AND_PRS\<rparr>)))"

text \<open>\<^verbatim>\<open>Process\<close>: the \<^verbatim>\<open>switch\<close> on the state, and the loop over the batch. \<open>None\<close> is a
  call that does not return.\<close>

definition Process_step ::
  "OFDM_Params \<Rightarrow> OFDM_Demod_Config \<Rightarrow> fft_plans \<Rightarrow> OFDM_Demod \<Rightarrow> complex list
    \<Rightarrow> (fault + nat \<times> OFDM_Demod) option" where
  "Process_step params cfg plans st block =
     (case state st of
        FINDING_NULL_POWER_DIP \<Rightarrow> map_option Inr (FindNullPowerDip params cfg st block)
      | READING_NULL_AND_PRS \<Rightarrow> Some (Inr (ReadNullPRS st block))
      | RUNNING_COARSE_FREQ_SYNC \<Rightarrow> Some (RunCoarseFreqSync params cfg plans st)
      | RUNNING_FINE_TIME_SYNC \<Rightarrow> Some (RunFineTimeSync params cfg plans st)
      | READING_SYMBOLS \<Rightarrow> Some (ReadSymbols params st block))"

partial_function (option) Process_loop ::
  "OFDM_Params \<Rightarrow> OFDM_Demod_Config \<Rightarrow> fft_plans \<Rightarrow> complex list \<Rightarrow> nat \<Rightarrow> OFDM_Demod
    \<Rightarrow> (fault + nat \<times> OFDM_Demod) option" where
  "Process_loop params cfg plans buf curr_index st =
     (if curr_index < length buf then
        (case Process_step params cfg plans st (drop curr_index buf) of
           None \<Rightarrow> None
         | Some (Inl e) \<Rightarrow> Some (Inl e)
         | Some (Inr (nb_read, st')) \<Rightarrow>
             Process_loop params cfg plans buf (curr_index + nb_read) st')
      else Some (Inr (curr_index, st)))"

definition Process ::
  "OFDM_Params \<Rightarrow> OFDM_Demod_Config \<Rightarrow> fft_plans \<Rightarrow> complex list \<Rightarrow> OFDM_Demod
    \<Rightarrow> (fault + nat \<times> OFDM_Demod) option" where
  "Process params cfg plans buf st =
     (case UpdateSignalAverage cfg buf st of
        None \<Rightarrow> None
      | Some st1 \<Rightarrow> Process_loop params cfg plans buf 0 st1)"

subsection \<open>The coordinator and the phase error of a worker\<close>

text \<open>Modelled from the spec: \<^verbatim>\<open>GetDataSymbol(i)\<close> of the frame buffer class, declared outside
  the sources at hand, gives symbol \<open>i\<close> of the symbol-addressable active buffer. The
  active buffer is a list of symbols here. A worker shifts the frequency of the symbols of
  its range in place, then sums the cyclic phase error of those that are not the NULL
  symbol; the workers touch disjoint symbols, so \<open>symbols\<close> below is the active buffer as
  every worker finds its own range after its shift.\<close>

definition PipelineThread_apply_pll ::
  "OFDM_Params \<Rightarrow> real \<Rightarrow> OFDM_Demod_Pipeline \<Rightarrow> complex list list \<Rightarrow> complex list list" where
  "PipelineThread_apply_pll params frequency_offset pipeline symbols =
     fold (\<lambda>i syms.
            let sym_buf = syms ! i;
                sample_offset = int i * int (nb_symbol_period params);
                dt_start = real_of_int sample_offset * frequency_offset
            in syms[i := ApplyPLL sym_buf frequency_offset dt_start])
       [symbol_start pipeline..<symbol_end pipeline] symbols"

definition PipelineThread_phase_error ::
  "OFDM_Params \<Rightarrow> OFDM_Demod_Pipeline \<Rightarrow> complex list list \<Rightarrow> real" where
  "PipelineThread_phase_error params pipeline symbols =
     (let symbol_end_no_null = min (symbol_end pipeline) (nb_frame_symbols params)
      in fold (\<lambda>i total_phase_error.
                 total_phase_error + CalculateCyclicPhaseError params (symbols ! i))
           [symbol_start pipeline..<symbol_end_no_null] 0)"

text \<open>The \<^verbatim>\<open>calculate_fft\<close> lambda of \<^verbatim>\<open>PipelineThread\<close>: the FFT of each symbol of a range,
  its cyclic prefix removed, stored at the place of the symbol in \<open>pipeline_fft_buffer\<close>.\<close>

definition calculate_fft_symbol ::
  "OFDM_Params \<Rightarrow> fft_plans \<Rightarrow> complex list list \<Rightarrow> pipeline_buffers \<Rightarrow> nat \<Rightarrow> fault + pipeline_buffers" where
  "calculate_fft_symbol params plans symbols bufs i =
     bindE (span_read symbols (int i)) (\<lambda>sym_buf.
     bindE (subspan sym_buf (nb_cyclic_prefix params) (nb_fft params)) (\<lambda>data_buf.
     bindE (subspan (pipeline_fft_buffer bufs) (i * nb_fft params) (nb_fft params)) (\<lambda>fft_buf.
     Inr (bufs\<lparr>pipeline_fft_buffer :=
                 subspan_store (pipeline_fft_buffer bufs) (i * nb_fft params)
                   (CalculateFFT params plans data_buf)\<rparr>))))"

fun calculate_fft ::
  "OFDM_Params \<Rightarrow> fft_plans \<Rightarrow> complex list list \<Rightarrow> pipeline_buffers \<Rightarrow> nat list \<Rightarrow> fault + pipeline_buffers" where
  "calculate_fft params plans symbols bufs [] = Inr bufs"
| "calculate_fft params plans symbols bufs (i # rest) =
     bindE (calculate_fft_symbol params plans symbols bufs i) (\<lambda>bufs'.
       calculate_fft params plans symbols bufs' rest)"

text \<open>The FFT of symbol \<open>s\<close> of a frame after the removal of its cyclic prefix.\<close>

definition symbol_fft :: "OFDM_Params \<Rightarrow> fft_plans \<Rightarrow> complex list list \<Rightarrow> nat \<Rightarrow> complex list" where
  "symbol_fft params plans symbols s =
     fft_plan plans (take (nb_fft params) (drop (nb_cyclic_prefix params) (symbols ! s)))"

text \<open>The coordinator, between the barriers: the stored phase errors of the workers are
  summed and divided by \<open>nb_frame_symbols\<close>, and the fine frequency offset is updated.\<close>

definition Coordinator_delta :: "OFDM_Params \<Rightarrow> OFDM_Demod_Config \<Rightarrow> real list \<Rightarrow> real" where
  "Coordinator_delta params cfg phase_errors =
     (let average_cyclic_error =
            fold (\<lambda>cyclic_error acc. acc + cyclic_error) phase_errors 0
              / real (nb_frame_symbols params);
          fine_freq_error = CalculateFineFrequencyError params average_cyclic_error;
          beta = sync_fine_freq_update_beta cfg
      in - beta * fine_freq_error)"

definition CoordinatorThread ::
  "OFDM_Params \<Rightarrow> OFDM_Demod_Config \<Rightarrow> real list \<Rightarrow> OFDM_Demod \<Rightarrow> OFDM_Demod" where
  "CoordinatorThread params cfg phase_errors st =
     (let st1 = UpdateFineFrequencyOffset params (Coordinator_delta params cfg phase_errors) st
      in st1\<lparr>total_frames_read := total_frames_read st1 + 1\<rparr>)"

text \<open>The names the statements below use: the FFT bin of carrier \<open>c\<close> as the
  specification gives it, \<open>(nb_fft + c) mod nb_fft\<close>; the entry of the DQPSK vector that
  \<^verbatim>\<open>CalculateDQPSK\<close> writes for carrier \<open>c\<close> (the value of \<open>subcarrier_index\<close> when the loop
  is at \<open>i = c\<close>); and the FFT of symbol \<open>s\<close> in \<open>pipeline_fft_buffer\<close>.\<close>

definition fft_index :: "OFDM_Params \<Rightarrow> int \<Rightarrow> nat" where
  "fft_index params c = nat ((int (nb_fft params) + c) mod int (nb_fft params))"

definition dqpsk_position :: "OFDM_Params \<Rightarrow> int \<Rightarrow> nat" where
  "dqpsk_position params c =
     (let M = int (nb_data_carriers params) div 2
      in nat (if c < 0 then c + M else c + M - 1))"

definition fft_of_symbol :: "OFDM_Params \<Rightarrow> pipeline_buffers \<Rightarrow> nat \<Rightarrow> complex list" where
  "fft_of_symbol params bufs s =
     take (nb_fft params) (drop (s * nb_fft params) (pipeline_fft_buffer bufs))"

text \<open>A list of accesses keeps every store to \<open>freq_fine_offset\<close> under the mutex: the
  lock is held at each store, it is not taken twice, and it is released at the end.
  \<open>stored_freq_fine_offset\<close> is the value that the last store leaves.\<close>

fun stores_under_mutex :: "bool \<Rightarrow> access list \<Rightarrow> bool" where
  "stores_under_mutex held [] = (\<not> held)"
| "stores_under_mutex held (Lock_mutex_freq_fine_offset # rest) =
     (\<not> held \<and> stores_under_mutex True rest)"
| "stores_under_mutex held (Store_freq_fine_offset v # rest) =
     (held \<and> stores_under_mutex held rest)"
| "stores_under_mutex held (Unlock_mutex_freq_fine_offset # rest) =
     (held \<and> stores_under_mutex False rest)"

fun stored_freq_fine_offset :: "real \<Rightarrow> access list \<Rightarrow> real" where
  "stored_freq_fine_offset v [] = v"
| "stored_freq_fine_offset v (Store_freq_fine_offset u # rest) = stored_freq_fine_offset u rest"
| "stored_freq_fine_offset v (Lock_mutex_freq_fine_offset # rest) = stored_freq_fine_offset v rest"
| "stored_freq_fine_offset v (Unlock_mutex_freq_fine_offset # rest) = stored_freq_fine_offset v rest"

text \<open>Well-formed parameters: a positive FFT size, a symbol period that is the FFT size
  plus the cyclic prefix, a cyclic prefix no longer than the NULL period, and a frame
  longer than a symbol period plus a cyclic prefix.\<close>

definition wf_params :: "OFDM_Params \<Rightarrow> bool" where
  "wf_params params =
     (0 < nb_fft params
      \<and> nb_symbol_period params = nb_fft params + nb_cyclic_prefix params
      \<and> nb_cyclic_prefix params \<le> nb_null_period params
      \<and> nb_symbol_period params + nb_cyclic_prefix params < frame_size params)"

text \<open>What the constructor establishes and every handler keeps: the capacities of the
  buffers, no buffer holding more than its capacity, and a buffer that is read into in the
  current state not being full.\<close>

definition demod_inv :: "OFDM_Params \<Rightarrow> OFDM_Demod \<Rightarrow> bool" where
  "demod_inv params st =
     (Capacity (correlation_time_buffer st) = nb_null_period params + nb_symbol_period params
      \<and> Capacity (inactive_buffer st) = frame_size params
      \<and> length (active_buffer_data st) = frame_size params
      \<and> length (cb_data (null_power_dip_buffer st)) = nb_null_period params
      \<and> cb_length (null_power_dip_buffer st) \<le> nb_null_period params
      \<and> buf_length (correlation_time_buffer st) \<le> Capacity (correlation_time_buffer st)
      \<and> buf_length (inactive_buffer st) \<le> Capacity (inactive_buffer st)
      \<and> (state st = READING_NULL_AND_PRS \<longrightarrow> \<not> IsFull (correlation_time_buffer st))
      \<and> (state st = READING_SYMBOLS \<longrightarrow> \<not> IsFull (inactive_buffer st)))"

text \<open>The two states whose handlers return 0, and a rank that decreases along them.\<close>

definition zero_consumption_state :: "State \<Rightarrow> bool" where
  "zero_consumption_state s = (s = RUNNING_COARSE_FREQ_SYNC \<or> s = RUNNING_FINE_TIME_SYNC)"

definition state_rank :: "State \<Rightarrow> nat" where
  "state_rank s =
     (case s of RUNNING_COARSE_FREQ_SYNC \<Rightarrow> 2 | RUNNING_FINE_TIME_SYNC \<Rightarrow> 1 | _ \<Rightarrow> 0)"

text \<open>The interval of the specification for the fine frequency offset:
  \<open>[-0.5 / nb_fft * 1.01, +0.5 / nb_fft * 1.01]\<close>.\<close>

definition fine_offset_in_range :: "OFDM_Params \<Rightarrow> OFDM_Demod \<Rightarrow> bool" where
  "fine_offset_in_range params st =
     (- (0.5 / real (nb_fft params) * 1.01) \<le> freq_fine_offset st
      \<and> freq_fine_offset st \<le> 0.5 / real (nb_fft params) * 1.01)"

section \<open>Concrete inputs\<close>

text \<open>A small parameter set (four FFT bins, two data carriers, two symbols per frame) and
  pipeline buffers holding the FFTs of three symbols, on which the definitions are run.\<close>

definition example_params :: OFDM_Params where
  "example_params = \<lparr>nb_fft = 4, nb_cyclic_prefix = 1, nb_symbol_period = 5,
     nb_null_period = 6, nb_frame_symbols = 2, nb_data_carriers = 2\<rparr>"

definition example_buffers :: pipeline_buffers where
  "example_buffers = \<lparr>pipeline_fft_buffer = [0, 1, 0, 1,  0, \<i>, 0, \<i>,  0, 0, 0, 0],
     pipeline_dqpsk_vec_buffer = [0, 0, 0, 0],
     pipeline_out_bits = [0, 0, 0, 0]\<rparr>"

definition example_cfg :: OFDM_Demod_Config where
  "example_cfg = \<lparr>signal_l1_nb_samples = 1, signal_l1_nb_decimate = 1,
     signal_l1_update_beta = 0.5,
     null_l1_search_thresh_null_start = 0.35, null_l1_search_thresh_null_end = 0.75,
     sync_is_coarse_freq_correction = True,
     sync_max_coarse_freq_correction_norm = 0.5,
     sync_coarse_freq_slow_beta = 0.1,
     sync_impulse_peak_threshold_db = 20,
     sync_impulse_peak_distance_probability = 0.15,
     sync_fine_freq_update_beta = 0.9\<rparr>"

definition example_plans :: fft_plans where
  "example_plans = \<lparr>fft_plan = map (\<lambda>z. 1), ifft_plan = map (\<lambda>z. 1)\<rparr>"

definition example_state :: OFDM_Demod where
  "example_state =
     \<lparr>state = RUNNING_FINE_TIME_SYNC,
      total_frames_desync = 0,
      total_frames_read = 0,
      is_found_coarse_freq_offset = False,
      freq_coarse_offset = 0,
      freq_fine_offset = 0,
      fine_time_offset = 0,
      is_null_start_found = False,
      is_null_end_found = False,
      signal_l1_average = 0,
      null_power_dip_buffer = \<lparr>cb_data = replicate 6 0, cb_length = 0, cb_index = 0\<rparr>,
      correlation_time_buffer = \<lparr>buf_data = replicate 11 1, buf_length = 11\<rparr>,
      inactive_buffer = \<lparr>buf_data = replicate 16 0, buf_length = 0\<rparr>,
      active_buffer_data = replicate 16 0,
      correlation_prs_fft_reference = [1, 1, 1, 1],
      correlation_prs_time_reference = [1, 1, 1, 1],
      correlation_impulse_response = [0, 0, 0, 0],
      correlation_frequency_response = [0, 0, 0, 0]\<rparr>"

text \<open>The same state once a coarse offset has been found, holding a value of binary32
  that is not a multiple of \<open>1/4\<close>.\<close>

definition example_locked_state :: OFDM_Demod where
  "example_locked_state =
     example_state\<lparr>is_found_coarse_freq_offset := True,
                   freq_coarse_offset := - (13589545 / 2 ^ 25)\<rparr>"

definition example_symbols :: "complex list list" where
  "example_symbols = [[1, 1, 1, 1, 1], [\<i>, 1, 1, 1, 1], [0, 0, 0, 0, 0]]"

section \<open>Properties\<close>

declare round_significand.simps [simp del]
declare CreateThreads_loop.simps [simp del]
declare CalculateDQPSK_loop.simps [simp del]
declare CalculateViterbiBits_loop.simps [simp del]
declare coarse_peak_search_loop.simps [simp del]

lemma bindE_Inr [simp]: "bindE (Inr v) f = f v"
  by (simp add: bindE_def)

lemma bindE_Inl [simp]: "bindE (Inl e) f = Inl e"
  by (simp add: bindE_def)

lemma float_to_int_frac: "\<bar>q - real_of_int (float_to_int q)\<bar> < 1"
  unfolding float_to_int_def by (auto; linarith)

lemma c_fmod_bound:
  assumes "0 < y"
  shows "\<bar>c_fmod x y\<bar> < y"
proof -
  have "c_fmod x y = (x / y - real_of_int (float_to_int (x / y))) * y"
    using assms by (simp add: c_fmod_def field_simps)
  then have "\<bar>c_fmod x y\<bar> = \<bar>x / y - real_of_int (float_to_int (x / y))\<bar> * y"
    using assms by (simp add: abs_mult)
  also have "\<dots> < 1 * y"
    using assms float_to_int_frac [of "x / y"] by (intro mult_strict_right_mono) auto
  finally show ?thesis by simp
qed

lemma fft_bin_wrap_pos: "0 < nb_fft params \<Longrightarrow> 0 < fft_bin_wrap params"
  by (simp add: fft_bin_wrap_def)

subsection \<open>Rounding to binary32\<close>

lemma round_half_even_of_int [simp]: "round_half_even (real_of_int n) = n"
  by (simp add: round_half_even_def)

lemma round_half_even_zero [simp]: "round_half_even 0 = 0"
  using round_half_even_of_int [of 0] by simp

lemma round_half_even_numeral [simp]: "round_half_even (numeral k) = numeral k"
  using round_half_even_of_int [of "numeral k"] by simp

lemma round_half_even_mono: "x \<le> y \<Longrightarrow> round_half_even x \<le> round_half_even y"
proof -
  assume xy: "x \<le> y"
  have fx: "\<lfloor>x\<rfloor> \<le> \<lfloor>y\<rfloor>" using xy by (rule floor_mono)
  have lx: "round_half_even x \<le> \<lfloor>x\<rfloor> + 1" "\<lfloor>x\<rfloor> \<le> round_half_even x"
    by (simp_all add: round_half_even_def Let_def)
  have ly: "\<lfloor>y\<rfloor> \<le> round_half_even y"
    by (simp add: round_half_even_def Let_def)
  show ?thesis
  proof (cases "\<lfloor>x\<rfloor> = \<lfloor>y\<rfloor>")
    case True
    then show ?thesis using xy
      by (auto simp: round_half_even_def Let_def)
  next
    case False
    then show ?thesis using fx lx ly by linarith
  qed
qed

lemma round_half_even_le: "x \<le> real_of_int n \<Longrightarrow> round_half_even x \<le> n"
  using round_half_even_mono [of x "real_of_int n"] by simp

lemma round_half_even_ge: "real_of_int n \<le> x \<Longrightarrow> n \<le> round_half_even x"
  using round_half_even_mono [of "real_of_int n" x] by simp

lemma round_significand_small: "s < 2 ^ 24 \<Longrightarrow> round_significand s = real_of_int (round_half_even s)"
  by (subst round_significand.simps) simp

lemma round_significand_large: "2 ^ 24 \<le> s \<Longrightarrow> round_significand s = 2 * round_significand (s / 2)"
  by (subst round_significand.simps) simp

lemma round_significand_ge: "2 ^ 24 \<le> s \<Longrightarrow> 2 ^ 24 \<le> round_significand s"
proof (induction s rule: round_significand.induct)
  case (1 s)
  show ?case
  proof (cases "s / 2 < 2 ^ 24")
    case True
    have "real_of_int (2 ^ 23) \<le> s / 2" using 1(2) by simp
    then have "2 ^ 23 \<le> round_half_even (s / 2)" by (rule round_half_even_ge)
    then have "2 ^ 23 \<le> real_of_int (round_half_even (s / 2))" by simp
    then show ?thesis using 1(2) True
      by (simp add: round_significand_large round_significand_small)
  next
    case False
    then have "2 ^ 24 \<le> round_significand (s / 2)" using 1 by simp
    then show ?thesis using 1(2) by (simp add: round_significand_large)
  qed
qed

lemma round_significand_mono: "s \<le> t \<Longrightarrow> round_significand s \<le> round_significand t"
proof (induction t arbitrary: s rule: round_significand.induct)
  case (1 t)
  show ?case
  proof (cases "t < 2 ^ 24")
    case True
    then show ?thesis using 1(2) round_half_even_mono [of s t]
      by (simp add: round_significand_small)
  next
    case False
    then have t: "2 ^ 24 \<le> t" by simp
    show ?thesis
    proof (cases "s < 2 ^ 24")
      case True
      then have "s \<le> real_of_int (2 ^ 24)" by simp
      then have "round_half_even s \<le> 2 ^ 24" by (rule round_half_even_le)
      then have "real_of_int (round_half_even s) \<le> 2 ^ 24" by simp
      then show ?thesis using True round_significand_ge [OF t]
        by (simp add: round_significand_small)
    next
      case False
      then have "round_significand (s / 2) \<le> round_significand (t / 2)"
        using 1 t by simp
      then show ?thesis using False t by (simp add: round_significand_large)
    qed
  qed
qed

lemma round_significand_nonneg: "0 \<le> s \<Longrightarrow> 0 \<le> round_significand s"
  using round_significand_mono [of 0 s] by (simp add: round_significand_small)

lemma round_significand_exact:
  "0 \<le> m \<Longrightarrow> m \<le> 2 ^ 24 \<Longrightarrow> round_significand (2 ^ n * real_of_int m) = 2 ^ n * real_of_int m"
proof (induction n)
  case 0
  show ?case
  proof (cases "m < 2 ^ 24")
    case True
    then have "real_of_int m < 2 ^ 24" by simp
    then show ?thesis by (simp add: round_significand_small)
  next
    case False
    then have m: "m = 2 ^ 24" using 0 by simp
    have "round_significand (2 ^ 24) = 2 * round_significand (real_of_int (2 ^ 23))"
      by (simp add: round_significand_large)
    also have "\<dots> = 2 ^ 24" by (simp add: round_significand_small)
    finally show ?thesis using m by simp
  qed
next
  case (Suc n)
  show ?case
  proof (cases "2 ^ Suc n * real_of_int m < 2 ^ 24")
    case True
    have "2 ^ Suc n * real_of_int m = real_of_int (2 ^ Suc n * m)" by simp
    then show ?thesis using True round_significand_small [OF True]
      by (metis round_half_even_of_int)
  next
    case False
    then have "round_significand (2 ^ Suc n * real_of_int m)
        = 2 * round_significand (2 ^ Suc n * real_of_int m / 2)"
      by (simp add: round_significand_large)
    then show ?thesis using Suc by simp
  qed
qed

lemma round_significand_representable:
  "0 \<le> s \<Longrightarrow> \<exists>n m. 0 \<le> m \<and> m \<le> 2 ^ 24 \<and> round_significand s = 2 ^ n * real_of_int m"
proof (induction s rule: round_significand.induct)
  case (1 s)
  show ?case
  proof (cases "s < 2 ^ 24")
    case True
    then have "s \<le> real_of_int (2 ^ 24)" by simp
    then have a: "round_half_even s \<le> 2 ^ 24" by (rule round_half_even_le)
    have "real_of_int 0 \<le> s" using 1(2) by simp
    then have b: "0 \<le> round_half_even s" by (rule round_half_even_ge)
    have "round_significand s = 2 ^ 0 * real_of_int (round_half_even s)"
      using True by (simp add: round_significand_small)
    then show ?thesis using a b by blast
  next
    case False
    then obtain n m where "0 \<le> m" "m \<le> 2 ^ 24" "round_significand (s / 2) = 2 ^ n * real_of_int m"
      using 1 by force
    then have "round_significand s = 2 ^ Suc n * real_of_int m"
      using False by (simp add: round_significand_large)
    then show ?thesis using \<open>0 \<le> m\<close> \<open>m \<le> 2 ^ 24\<close> by blast
  qed
qed

lemma round_significand_idem: "0 \<le> s \<Longrightarrow> round_significand (round_significand s) = round_significand s"
  using round_significand_representable [of s] round_significand_exact by auto

lemma binary32_round_zero [simp]: "binary32_round 0 = 0"
  by (simp add: binary32_round_def)

lemma binary32_round_minus: "binary32_round (- v) = - binary32_round v"
  by (simp add: binary32_round_def sgn_minus)

lemma binary32_round_nonneg: "0 \<le> v \<Longrightarrow> binary32_round v = round_significand (v * 2 ^ 149) / 2 ^ 149"
  by (cases "v = 0") (simp_all add: binary32_round_def round_significand_small)

lemma binary32_round_abs: "\<bar>binary32_round v\<bar> = binary32_round \<bar>v\<bar>"
proof (cases "0 \<le> v")
  case True
  then have "0 \<le> binary32_round v"
    by (simp add: binary32_round_nonneg round_significand_nonneg)
  then show ?thesis using True by simp
next
  case False
  then have "0 \<le> binary32_round (- v)"
    by (simp add: binary32_round_nonneg round_significand_nonneg)
  then show ?thesis using False by (simp add: binary32_round_minus)
qed

lemma binary32_round_mono_nonneg:
  "0 \<le> v \<Longrightarrow> v \<le> u \<Longrightarrow> binary32_round v \<le> binary32_round u"
  by (simp add: binary32_round_nonneg round_significand_mono divide_right_mono)

lemma binary32_round_mono: "v \<le> u \<Longrightarrow> binary32_round v \<le> binary32_round u"
proof -
  assume vu: "v \<le> u"
  consider "0 \<le> v" | "v < 0" "0 \<le> u" | "u < 0" by linarith
  then show ?thesis
  proof cases
    case 1
    then show ?thesis using vu by (rule binary32_round_mono_nonneg)
  next
    case 2
    have "0 \<le> binary32_round (- v)" "0 \<le> binary32_round u"
      using 2 by (simp_all add: binary32_round_nonneg round_significand_nonneg)
    then show ?thesis by (simp add: binary32_round_minus)
  next
    case 3
    then have "binary32_round (- u) \<le> binary32_round (- v)"
      using vu by (intro binary32_round_mono_nonneg) simp_all
    then show ?thesis by (simp add: binary32_round_minus)
  qed
qed

lemma binary32_round_idem [simp]: "binary32_round (binary32_round v) = binary32_round v"
proof -
  have nn: "binary32_round (binary32_round u) = binary32_round u" if "0 \<le> u" for u
  proof -
    have "0 \<le> binary32_round u" using that
      by (simp add: binary32_round_nonneg round_significand_nonneg)
    then show ?thesis using that
      by (simp add: binary32_round_nonneg round_significand_nonneg round_significand_idem)
  qed
  show ?thesis
  proof (cases "0 \<le> v")
    case True
    then show ?thesis by (rule nn)
  next
    case False
    then have "binary32_round (binary32_round (- v)) = binary32_round (- v)"
      by (intro nn) simp
    then show ?thesis by (simp add: binary32_round_minus)
  qed
qed

lemma binary32_round_exact_nonneg:
  assumes "0 \<le> m" "m \<le> 2 ^ 24" "k \<le> 149"
  shows "binary32_round (real_of_int m * 2 ^ n / 2 ^ k) = real_of_int m * 2 ^ n / 2 ^ k"
proof -
  define K :: real where "K = 2 ^ 149"
  define v where "v = real_of_int m * 2 ^ n / 2 ^ k"
  have nn: "0 \<le> v" using assms by (simp add: v_def)
  have K: "K = 2 ^ (149 - k) * 2 ^ k"
    unfolding K_def using assms(3) by (simp only: power_add [symmetric]) simp
  have "v * K = 2 ^ (n + (149 - k)) * real_of_int m"
    unfolding v_def K by (simp add: power_add)
  then have "round_significand (v * K) = v * K"
    using round_significand_exact [OF assms(1,2), of "n + (149 - k)"] by simp
  moreover have "binary32_round v = round_significand (v * K) / K"
    unfolding K_def by (rule binary32_round_nonneg [OF nn])
  moreover have "K \<noteq> 0" by (simp add: K_def)
  ultimately show ?thesis unfolding v_def by simp
qed

lemma binary32_round_exact:
  assumes "\<bar>m\<bar> \<le> 2 ^ 24" "k \<le> 149"
  shows "binary32_round (real_of_int m * 2 ^ n / 2 ^ k) = real_of_int m * 2 ^ n / 2 ^ k"
proof (cases "0 \<le> m")
  case True
  then show ?thesis using assms by (intro binary32_round_exact_nonneg) simp_all
next
  case False
  then have "binary32_round (real_of_int (- m) * 2 ^ n / 2 ^ k) = real_of_int (- m) * 2 ^ n / 2 ^ k"
    using assms by (intro binary32_round_exact_nonneg) simp_all
  then show ?thesis using binary32_round_minus [of "real_of_int m * 2 ^ n / 2 ^ k"] by simp
qed

lemma binary32_round_of_int: "\<bar>m\<bar> \<le> 2 ^ 24 \<Longrightarrow> binary32_round (real_of_int m) = real_of_int m"
  using binary32_round_exact [of m 0 0] by simp

lemma round_significand_scale:
  "2 ^ 23 \<le> s \<Longrightarrow> s < 2 ^ 24 \<Longrightarrow>
     round_significand (2 ^ n * s) = 2 ^ n * real_of_int (round_half_even s)"
proof (induction n)
  case 0
  then show ?case by (simp add: round_significand_small)
next
  case (Suc n)
  have "(2::real) ^ 24 \<le> 2 ^ Suc n * 2 ^ 23" by simp
  also have "\<dots> \<le> 2 ^ Suc n * s" using Suc(2) by (intro mult_left_mono) simp_all
  finally have "round_significand (2 ^ Suc n * s) = 2 * round_significand (2 ^ Suc n * s / 2)"
    by (rule round_significand_large)
  then show ?case using Suc by simp
qed

text \<open>A way of computing the rounding of a normal value: scale it into the first binade.\<close>

lemma binary32_round_normal:
  assumes "0 \<le> v" "2 ^ 23 \<le> v * 2 ^ j" "v * 2 ^ j < 2 ^ 24" "j \<le> 149"
  shows "binary32_round v = real_of_int (round_half_even (v * 2 ^ j)) / 2 ^ j"
proof -
  define K :: real where "K = 2 ^ 149"
  have K: "K = 2 ^ (149 - j) * 2 ^ j"
    unfolding K_def using assms(4) by (simp only: power_add [symmetric]) simp
  have e: "v * K = 2 ^ (149 - j) * (v * 2 ^ j)" unfolding K by simp
  have "round_significand (v * K) = 2 ^ (149 - j) * real_of_int (round_half_even (v * 2 ^ j))"
    unfolding e by (rule round_significand_scale [OF assms(2,3)])
  moreover have "binary32_round v = round_significand (v * K) / K"
    unfolding K_def by (rule binary32_round_nonneg [OF assms(1)])
  ultimately show ?thesis unfolding K by simp
qed

lemma float_to_int_minus: "float_to_int (- v) = - float_to_int v"
  by (auto simp: float_to_int_def ceiling_def)

lemma binary32_round_nonneg_iff: "0 \<le> v \<Longrightarrow> 0 \<le> binary32_round v"
  by (simp add: binary32_round_nonneg round_significand_nonneg)

lemma round_half_even_err: "\<bar>real_of_int (round_half_even s) - s\<bar> \<le> 1 / 2"
  unfolding round_half_even_def Let_def by (auto simp: abs_if) linarith+

lemma round_significand_err_normal:
  "2 ^ 23 \<le> s \<Longrightarrow> \<bar>round_significand s - s\<bar> \<le> s / 2 ^ 24"
proof (induction s rule: round_significand.induct)
  case (1 s)
  show ?case
  proof (cases "s < 2 ^ 24")
    case True
    then show ?thesis using round_half_even_err [of s] 1(2)
      by (simp add: round_significand_small)
  next
    case False
    then have "\<bar>round_significand (s / 2) - s / 2\<bar> \<le> s / 2 / 2 ^ 24"
      using 1 by simp
    moreover have "round_significand s = 2 * round_significand (s / 2)"
      using False by (simp add: round_significand_large)
    then have "\<bar>round_significand s - s\<bar> = 2 * \<bar>round_significand (s / 2) - s / 2\<bar>"
      by (simp add: abs_if)
    ultimately show ?thesis by simp
  qed
qed

lemma round_significand_err:
  assumes "0 \<le> s"
  shows "\<bar>round_significand s - s\<bar> \<le> s / 2 ^ 24 + 1 / 2"
proof (cases "2 ^ 23 \<le> s")
  case True
  then show ?thesis using round_significand_err_normal [of s] by simp
next
  case False
  then have "s < 2 ^ 24" by simp
  then show ?thesis using round_half_even_err [of s] assms
    by (simp add: round_significand_small)
qed

text \<open>The error of a rounding: half a unit in the last place, at most \<open>2 ^ -24\<close> of the
  value for a normal value and \<open>2 ^ -150\<close> for a subnormal one.\<close>

lemma binary32_round_err: "\<bar>binary32_round v - v\<bar> \<le> \<bar>v\<bar> / 2 ^ 24 + 1 / 2 ^ 150"
proof -
  define K :: real where "K = 2 ^ 149"
  have K: "0 < K" by (simp add: K_def)
  have nn: "\<bar>binary32_round u - u\<bar> \<le> \<bar>u\<bar> / 2 ^ 24 + 1 / 2 ^ 150" if u: "0 \<le> u" for u
  proof -
    have r: "binary32_round u = round_significand (u * K) / K"
      unfolding K_def by (rule binary32_round_nonneg [OF u])
    have "\<bar>round_significand (u * K) - u * K\<bar> \<le> u * K / 2 ^ 24 + 1 / 2"
      using u K by (intro round_significand_err) simp
    then have "\<bar>round_significand (u * K) - u * K\<bar> / K \<le> (u * K / 2 ^ 24 + 1 / 2) / K"
      using K by (simp add: divide_right_mono)
    moreover have "binary32_round u - u = (round_significand (u * K) - u * K) / K"
      using K by (simp add: r diff_divide_distrib)
    then have "\<bar>round_significand (u * K) - u * K\<bar> / K = \<bar>binary32_round u - u\<bar>"
      using K by simp
    moreover have "(u * K / 2 ^ 24 + 1 / 2) / K = u / 2 ^ 24 + 1 / (2 * K)"
      using K by (simp add: field_simps)
    moreover have "2 * K = 2 ^ 150" by (simp add: K_def)
    ultimately show ?thesis using u by simp
  qed
  show ?thesis
  proof (cases "0 \<le> v")
    case True
    then show ?thesis by (rule nn)
  next
    case False
    then have "\<bar>binary32_round (- v) - (- v)\<bar> \<le> \<bar>- v\<bar> / 2 ^ 24 + 1 / 2 ^ 150"
      by (intro nn) simp
    then show ?thesis by (simp add: binary32_round_minus abs_minus_commute)
  qed
qed

lemma rounding_errors_add:
  fixes A B C D P :: real
  assumes "0 \<le> D" "0 \<le> P" "A \<le> D / 2 ^ 24 + 1 / 2 ^ 150"
    "B \<le> C / 2 ^ 24 + 1 / 2 ^ 150" "C \<le> P + A"
  shows "B + A \<le> (P + D) / 2 ^ 23 + 1 / 2 ^ 148"
proof -
  have "A / 2 ^ 24 \<le> (D / 2 ^ 24 + 1 / 2 ^ 150) / 2 ^ 24"
    using assms(3) by (rule divide_right_mono) simp
  also have "\<dots> \<le> D / 2 ^ 24 + 1 / 2 ^ 150"
    using assms(1) by (simp add: field_simps)
  finally have a: "A / 2 ^ 24 \<le> D / 2 ^ 24 + 1 / 2 ^ 150" .
  have "C / 2 ^ 24 \<le> (P + A) / 2 ^ 24"
    using assms(5) by (rule divide_right_mono) simp
  then have c: "C / 2 ^ 24 \<le> P / 2 ^ 24 + A / 2 ^ 24" by (simp add: add_divide_distrib)
  have "B + A \<le> P / 2 ^ 24 + 2 * (D / 2 ^ 24) + 3 * (1 / 2 ^ 150)"
    using a c assms(3,4) by linarith
  also have "\<dots> \<le> (P + D) / 2 ^ 23 + 1 / 2 ^ 148"
    using assms(1,2) by (simp add: field_simps)
  finally show ?thesis .
qed

text \<open>Rounding, then discarding the fractional part, of a value between 0 and an
  integer that the format holds.\<close>

lemma floor_binary32_round:
  assumes "0 \<le> a" "a \<le> real_of_int H" "H \<le> 2 ^ 24"
  shows "0 \<le> \<lfloor>binary32_round a\<rfloor>" "\<lfloor>binary32_round a\<rfloor> \<le> H"
    "\<bar>real_of_int \<lfloor>binary32_round a\<rfloor> - a\<bar> < 1"
proof -
  define n where "n = \<lfloor>a\<rfloor>"
  have n: "0 \<le> n" "real_of_int n \<le> a" "a < real_of_int n + 1" "n \<le> H"
    using assms by (simp_all add: n_def floor_le_iff)
  have lo: "real_of_int n \<le> binary32_round a"
    using binary32_round_mono [OF n(2)] binary32_round_of_int [of n] n(1,4) assms(3) by simp
  have hi: "binary32_round a \<le> real_of_int H"
    using binary32_round_mono [OF assms(2)] binary32_round_of_int [of H] n(1,4) assms(3) by simp
  show "0 \<le> \<lfloor>binary32_round a\<rfloor>" using lo n(1) by (simp add: le_floor_iff)
  show "\<lfloor>binary32_round a\<rfloor> \<le> H" using hi by (simp add: floor_le_iff)
  show "\<bar>real_of_int \<lfloor>binary32_round a\<rfloor> - a\<bar> < 1"
  proof (cases "n + 1 \<le> H")
    case True
    have "a \<le> real_of_int (n + 1)" using n(3) by simp
    then have hi1: "binary32_round a \<le> real_of_int (n + 1)"
      using binary32_round_mono [of a "real_of_int (n + 1)"] binary32_round_of_int [of "n + 1"]
        n(1) True assms(3) by simp
    show ?thesis
    proof (cases "binary32_round a = real_of_int (n + 1)")
      case True
      then have "\<lfloor>binary32_round a\<rfloor> = n + 1" by (metis floor_of_int)
      moreover have "a \<noteq> real_of_int n"
      proof
        assume "a = real_of_int n"
        then have "binary32_round a = real_of_int n"
          using binary32_round_of_int [of n] n(1,4) assms(3) by simp
        then show False using True by simp
      qed
      ultimately show ?thesis using n(2,3) by simp
    next
      case False
      then have "binary32_round a < real_of_int n + 1" using hi1 by simp
      then have "\<lfloor>binary32_round a\<rfloor> = n" using lo by (simp add: floor_eq_iff)
      then show ?thesis using n(2,3) by simp
    qed
  next
    case False
    then have "n = H" using n(4) by simp
    then have "a = real_of_int H" using n(2) assms(2) by simp
    then have "binary32_round a = real_of_int H"
      using binary32_round_of_int [of H] n(1,4) assms(3) by simp
    then show ?thesis using \<open>a = real_of_int H\<close> by simp
  qed
qed

lemma float_to_int_binary32_round:
  assumes "\<bar>p\<bar> \<le> real_of_int H" "H \<le> 2 ^ 24"
  shows "\<bar>float_to_int (binary32_round p)\<bar> \<le> H"
    and "\<bar>real_of_int (float_to_int (binary32_round p)) - p\<bar> < 1"
proof -
  have r: "\<bar>float_to_int (binary32_round p)\<bar> \<le> H
      \<and> \<bar>real_of_int (float_to_int (binary32_round p)) - p\<bar> < 1"
  proof (cases "0 \<le> p")
    case True
    then have "float_to_int (binary32_round p) = \<lfloor>binary32_round p\<rfloor>"
      by (simp add: float_to_int_def binary32_round_nonneg_iff)
    then show ?thesis using floor_binary32_round [of p H] True assms by simp
  next
    case False
    then have q: "0 \<le> - p" "- p \<le> real_of_int H" using assms by simp_all
    have "float_to_int (binary32_round (- p)) = \<lfloor>binary32_round (- p)\<rfloor>"
      using q(1) by (simp add: float_to_int_def binary32_round_nonneg_iff)
    then have "float_to_int (binary32_round p) = - \<lfloor>binary32_round (- p)\<rfloor>"
      using float_to_int_minus [of "binary32_round (- p)"] by (simp add: binary32_round_minus)
    then show ?thesis using floor_binary32_round [OF q assms(2)] by simp
  qed
  show "\<bar>float_to_int (binary32_round p)\<bar> \<le> H" using r by simp
  show "\<bar>real_of_int (float_to_int (binary32_round p)) - p\<bar> < 1" using r by simp
qed

subsection \<open>The number of pipeline workers\<close>

lemma length_CreateThreads_loop:
  "length (CreateThreads_loop nb_syms nb_threads i s) = nb_threads - i"
proof (induction "nb_threads - i" arbitrary: i s)
  case 0
  then show ?case
    by (subst CreateThreads_loop.simps) simp
next
  case (Suc m)
  then have "i < nb_threads" and "m = nb_threads - (i + 1)" by simp_all
  then show ?case
    using Suc.hyps(1) [of "i + 1"]
    by (subst CreateThreads_loop.simps) (simp add: Let_def)
qed

text \<open>
  C5, as the code has it. With \<open>nb_desired_threads > 0\<close> the number of workers is
  \<open>min (nb_frame_symbols + 1) nb_desired_threads\<close>. With \<open>nb_desired_threads \<le> 0\<close> it is
  \<open>m - 1\<close> when \<open>m > 1\<close> and \<open>m\<close> otherwise, for
  \<open>m = min (nb_frame_symbols + 1) hardware_concurrency\<close>: one thread is set aside only on
  a system with more than one, so the cap is
  \<open>min (nb_frame_symbols + 1) (max 1 (hardware_concurrency - 1))\<close>.
\<close>

theorem CreateThreads_nb_workers:
  "(0 < nb_desired_threads \<longrightarrow>
      int (length (CreateThreads params nb_desired_threads total_system_threads))
        = min (int (nb_frame_symbols params) + 1) nb_desired_threads)
   \<and> (nb_desired_threads \<le> 0 \<longrightarrow>
      int (length (CreateThreads params nb_desired_threads total_system_threads))
        = (let m = min (int (nb_frame_symbols params) + 1) (int total_system_threads)
           in if 1 < m then m - 1 else m)
      \<and> int (length (CreateThreads params nb_desired_threads total_system_threads))
        \<le> min (int (nb_frame_symbols params) + 1) (max 1 (int total_system_threads - 1)))"
  by (auto simp: CreateThreads_def length_CreateThreads_loop nb_pipeline_threads_def Let_def)

theorem CreateThreads_nb_workers_witness:
  "(0::int) < 4
   \<and> int (length (CreateThreads example_params 4 8)) = min (int (nb_frame_symbols example_params) + 1) 4
   \<and> (0::int) \<le> 0
   \<and> int (length (CreateThreads example_params 0 8)) = 2
   \<and> int (length (CreateThreads example_params 0 8)) \<le> min (int (nb_frame_symbols example_params) + 1) (max 1 (8 - 1))"
  using CreateThreads_nb_workers [of 4 example_params 8]
    CreateThreads_nb_workers [of 0 example_params 8]
  by (simp add: example_params_def)

text \<open>On a system that reports one hardware thread the automatic choice keeps one worker,
  above the cap \<open>min (nb_frame_symbols + 1) (hardware_concurrency - 1) = 0\<close> of C5 as stated.\<close>

theorem CreateThreads_cap_counterexample:
  "length (CreateThreads example_params 0 1) = 1
   \<and> min (int (nb_frame_symbols example_params) + 1) (int 1 - 1) = 0
   \<and> \<not> int (length (CreateThreads example_params 0 1))
         \<le> min (int (nb_frame_symbols example_params) + 1) (int 1 - 1)"
  by (simp add: CreateThreads_def length_CreateThreads_loop nb_pipeline_threads_def
      example_params_def)

subsection \<open>Conversion to a soft decision bit\<close>

lemma float_to_int_abs_le: "\<bar>v\<bar> \<le> real_of_int k \<Longrightarrow> \<bar>float_to_int v\<bar> \<le> k"
  unfolding float_to_int_def
  apply (auto simp: abs_le_iff)
     apply linarith+
  done

lemma convert_to_viterbi_bit_unit:
  assumes "0 \<le> HIGH" "HIGH < 2 ^ (w - 1)" "\<bar>x\<bar> \<le> 1"
  shows "convert_to_viterbi_bit HIGH w x = Inr (float_to_int (- x * real_of_int HIGH))"
    and "\<bar>float_to_int (- x * real_of_int HIGH)\<bar> \<le> HIGH"
proof -
  have "\<bar>- x * real_of_int HIGH\<bar> = \<bar>x\<bar> * real_of_int HIGH"
    using assms by (simp add: abs_mult)
  also have "\<dots> \<le> 1 * real_of_int HIGH"
    using assms by (intro mult_right_mono) auto
  finally have "\<bar>- x * real_of_int HIGH\<bar> \<le> real_of_int HIGH" by simp
  then show b: "\<bar>float_to_int (- x * real_of_int HIGH)\<bar> \<le> HIGH"
    by (rule float_to_int_abs_le)
  then show "convert_to_viterbi_bit HIGH w x = Inr (float_to_int (- x * real_of_int HIGH))"
    using assms by (auto simp: convert_to_viterbi_bit_def cast_viterbi_bit_def Let_def abs_le_iff)
qed

lemma convert_to_viterbi_bit_binary32_unit:
  assumes "0 \<le> HIGH" "HIGH \<le> 2 ^ 24" "HIGH < 2 ^ (w - 1)" "\<bar>x\<bar> \<le> 1"
  shows "convert_to_viterbi_bit_binary32 HIGH w x
           = Inr (float_to_int (binary32_round (- x * real_of_int HIGH)))"
    and "\<bar>float_to_int (binary32_round (- x * real_of_int HIGH))\<bar> \<le> HIGH"
    and "\<bar>real_of_int (float_to_int (binary32_round (- x * real_of_int HIGH)))
           - (- x * real_of_int HIGH)\<bar> < 1"
proof -
  have s: "float_of_int HIGH = real_of_int HIGH"
    using assms(1,2) by (simp add: float_of_int_def binary32_round_of_int)
  have "\<bar>- x * real_of_int HIGH\<bar> = \<bar>x\<bar> * real_of_int HIGH"
    using assms by (simp add: abs_mult)
  also have "\<dots> \<le> 1 * real_of_int HIGH"
    using assms by (intro mult_right_mono) auto
  finally have p: "\<bar>- x * real_of_int HIGH\<bar> \<le> real_of_int HIGH" by simp
  show b: "\<bar>float_to_int (binary32_round (- x * real_of_int HIGH))\<bar> \<le> HIGH"
    by (rule float_to_int_binary32_round(1) [OF p assms(2)])
  show "\<bar>real_of_int (float_to_int (binary32_round (- x * real_of_int HIGH)))
           - (- x * real_of_int HIGH)\<bar> < 1"
    by (rule float_to_int_binary32_round(2) [OF p assms(2)])
  show "convert_to_viterbi_bit_binary32 HIGH w x
           = Inr (float_to_int (binary32_round (- x * real_of_int HIGH)))"
    using b assms(3) s
    by (auto simp: convert_to_viterbi_bit_binary32_def cast_viterbi_bit_def float_mul_def
        Let_def abs_le_iff)
qed

text \<open>Where the product is a value of binary32 the two conversions agree.\<close>

lemma convert_to_viterbi_bit_binary32_exact:
  assumes "\<bar>HIGH\<bar> \<le> 2 ^ 24"
    and "binary32_round (- x * real_of_int HIGH) = - x * real_of_int HIGH"
  shows "convert_to_viterbi_bit_binary32 HIGH w x = convert_to_viterbi_bit HIGH w x"
  using assms
  by (simp add: convert_to_viterbi_bit_binary32_def convert_to_viterbi_bit_def float_of_int_def
      float_mul_def binary32_round_of_int)

lemma float_to_int_of_int: "float_to_int (real_of_int n) = n"
  by (simp add: float_to_int_def)

lemma float_to_int_toward_zero: "\<bar>real_of_int (float_to_int v)\<bar> \<le> \<bar>v\<bar>"
proof (cases "0 \<le> v")
  case True
  then have "0 \<le> \<lfloor>v\<rfloor>" by simp
  then show ?thesis using True by (simp add: float_to_int_def)
next
  case False
  then have "\<lceil>v\<rceil> \<le> 0" by (simp add: ceiling_le_iff)
  moreover have "v \<le> real_of_int \<lceil>v\<rceil>" by simp
  ultimately show ?thesis using False by (simp add: float_to_int_def)
qed

text \<open>
  C6, as the code has it. The conversion is the cast of the \<^verbatim>\<open>float\<close> product
  \<open>v = -x * scale\<close>, where \<open>scale\<close> is the constant as a \<^verbatim>\<open>float\<close> and the product is
  rounded to binary32: the fractional part of \<open>v\<close> is discarded (towards zero, no rounding
  to the nearest integer) and nothing is clamped; the result is defined whenever the
  truncated value is a value of \<^verbatim>\<open>viterbi_bit_t\<close>. For \<open>0 \<le> HIGH \<le> 2 ^ 24\<close> (an integer
  that \<^verbatim>\<open>float\<close> holds), \<open>HIGH\<close> a value of \<^verbatim>\<open>viterbi_bit_t\<close> and \<open>\<bar>x\<bar> \<le> 1\<close>, the range
  that \<^verbatim>\<open>CalculateViterbiBits\<close> feeds it, the result is defined, lies in \<open>[-HIGH, +HIGH]\<close>
  and is less than 1 away from \<open>-x * HIGH\<close>.
\<close>

theorem convert_to_viterbi_bit_binary32_truncates:
  "(- (2 ^ (w - 1)) \<le> float_to_int (float_mul (- x) (float_of_int HIGH))
      \<and> float_to_int (float_mul (- x) (float_of_int HIGH)) < 2 ^ (w - 1) \<longrightarrow>
      convert_to_viterbi_bit_binary32 HIGH w x
        = Inr (float_to_int (float_mul (- x) (float_of_int HIGH))))
   \<and> \<bar>real_of_int (float_to_int (float_mul (- x) (float_of_int HIGH)))\<bar>
        \<le> \<bar>float_mul (- x) (float_of_int HIGH)\<bar>
   \<and> (0 \<le> HIGH \<and> HIGH \<le> 2 ^ 24 \<and> HIGH < 2 ^ (w - 1) \<and> \<bar>x\<bar> \<le> 1 \<longrightarrow>
      (\<exists>b. convert_to_viterbi_bit_binary32 HIGH w x = Inr b
         \<and> b = float_to_int (binary32_round (- x * real_of_int HIGH))
         \<and> \<bar>b\<bar> \<le> HIGH
         \<and> \<bar>real_of_int b - (- x * real_of_int HIGH)\<bar> < 1))"
  using convert_to_viterbi_bit_binary32_unit [of HIGH w x]
    float_to_int_toward_zero [of "float_mul (- x) (float_of_int HIGH)"]
  by (auto simp: convert_to_viterbi_bit_binary32_def cast_viterbi_bit_def Let_def)

lemma float_of_int_127: "float_of_int 127 = 127"
  using binary32_round_of_int [of 127] by (simp add: float_of_int_def)

lemma float_mul_rounds_up: "float_mul (- (8454660 / 2 ^ 30)) 127 = - 1"
proof -
  have "binary32_round (8454660 / 2 ^ 30 * 127) = 1"
    by (subst binary32_round_normal [where j = 24]) (simp_all add: round_half_even_def)
  then show ?thesis
    using binary32_round_minus [of "8454660 / 2 ^ 30 * 127"] by (simp add: float_mul_def)
qed

lemma float_mul_254: "float_mul (- 2) 127 = - 254"
  using binary32_round_of_int [of "- 254"] by (simp add: float_mul_def)

lemma float_mul_127_128: "float_mul (- (1 / 128)) 127 = - (127 / 128)"
  using binary32_round_exact [of "- 127" 7 0] by (simp add: float_mul_def)

theorem convert_to_viterbi_bit_binary32_truncates_witness:
  "(0::int) \<le> 127 \<and> (127::int) \<le> 2 ^ 24 \<and> (127::int) < 2 ^ (16 - 1)
   \<and> \<bar>8454660 / 2 ^ 30 :: real\<bar> \<le> 1
   \<and> float_to_int (float_mul (- (8454660 / 2 ^ 30)) (float_of_int 127)) = - 1
   \<and> - (2 ^ (16 - 1)) \<le> (- 1 :: int) \<and> (- 1 :: int) < 2 ^ (16 - 1)
   \<and> convert_to_viterbi_bit_binary32 127 16 (8454660 / 2 ^ 30) = Inr (- 1)
   \<and> \<bar>- 1 :: int\<bar> \<le> 127
   \<and> float_to_int (float_mul (- 2) (float_of_int 127)) = - 254
   \<and> - (2 ^ (16 - 1)) \<le> (- 254 :: int) \<and> (- 254 :: int) < 2 ^ (16 - 1)
   \<and> convert_to_viterbi_bit_binary32 127 16 2 = Inr (- 254)"
proof -
  have a: "float_to_int (float_mul (- (8454660 / 2 ^ 30)) (float_of_int 127)) = - 1"
    unfolding float_of_int_127 float_mul_rounds_up using float_to_int_of_int [of "- 1"] by simp
  have b: "float_to_int (float_mul (- 2) (float_of_int 127)) = - 254"
    unfolding float_of_int_127 float_mul_254 using float_to_int_of_int [of "- 254"] by simp
  show ?thesis
    using convert_to_viterbi_bit_binary32_truncates [of 16 "8454660 / 2 ^ 30" 127]
      convert_to_viterbi_bit_binary32_truncates [of 16 2 127]
    unfolding a b by simp
qed

text \<open>At \<open>x = 1/128\<close> and \<open>HIGH = 127\<close> the product is \<open>-127/128\<close>, a value of binary32: the
  cast gives \<open>0\<close>, rounding gives \<open>-1\<close>. At \<open>x = 2\<close> the cast to a 16-bit type gives \<open>-254\<close>,
  outside \<open>[-127, 127]\<close>.\<close>

theorem convert_to_viterbi_bit_binary32_counterexample:
  "convert_to_viterbi_bit_binary32 127 16 (1 / 128) = Inr 0
   \<and> convert_to_viterbi_bit_binary32 127 8 (1 / 128) = Inr 0
   \<and> spec_convert_to_viterbi_bit 127 (1 / 128) = - 1
   \<and> convert_to_viterbi_bit_binary32 127 16 2 = Inr (- 254)
   \<and> spec_convert_to_viterbi_bit 127 2 = - 127
   \<and> convert_to_viterbi_bit_binary32 127 16 (1 / 128)
        \<noteq> Inr (spec_convert_to_viterbi_bit 127 (1 / 128))
   \<and> convert_to_viterbi_bit_binary32 127 16 2 \<noteq> Inr (spec_convert_to_viterbi_bit 127 2)"
  by (simp add: convert_to_viterbi_bit_binary32_def cast_viterbi_bit_def float_to_int_def
      spec_convert_to_viterbi_bit_def round_def float_of_int_127 float_mul_127_128 float_mul_254)

subsection \<open>The DQPSK vector\<close>

lemma c_rem_nonneg: "0 \<le> a \<Longrightarrow> 0 < b \<Longrightarrow> c_rem a b = a mod b"
  by (cases "a = 0") (simp_all add: c_rem_def)

lemma CalculateDQPSK_loop_entries:
  assumes "0 < N_fft" "M \<le> N_fft" "length in0 = nat N_fft" "length in1 = nat N_fft"
    and "2 * M \<le> int n"
  shows "- M \<le> i \<Longrightarrow> i \<le> M + 1 \<Longrightarrow> k = (if i \<le> 0 then i + M else i + M - 1) \<Longrightarrow>
     length out_vec = n \<Longrightarrow>
     \<exists>out'. CalculateDQPSK_loop M N_fft in0 in1 i k out_vec = Inr out' \<and> length out' = n
       \<and> (\<forall>c. i \<le> c \<and> c \<le> M \<and> c \<noteq> 0 \<longrightarrow>
             out' ! nat (if c < 0 then c + M else c + M - 1)
               = in1 ! nat ((N_fft + c) mod N_fft) * cnj (in0 ! nat ((N_fft + c) mod N_fft)))
       \<and> (\<forall>p. p < nat k \<longrightarrow> out' ! p = out_vec ! p)"
proof (induction "nat (M + 1 - i)" arbitrary: i k out_vec)
  case 0
  then have "\<not> i \<le> M" by simp
  then show ?case using 0
    by (subst CalculateDQPSK_loop.simps) auto
next
  case (Suc m)
  then have iM: "i \<le> M" by simp
  have m: "m = nat (M + 1 - (i + 1))" using Suc(2) by simp
  show ?case
  proof (cases "i = 0")
    case True
    have "\<exists>out'. CalculateDQPSK_loop M N_fft in0 in1 (i + 1) k out_vec = Inr out' \<and> length out' = n
       \<and> (\<forall>c. i + 1 \<le> c \<and> c \<le> M \<and> c \<noteq> 0 \<longrightarrow>
             out' ! nat (if c < 0 then c + M else c + M - 1)
               = in1 ! nat ((N_fft + c) mod N_fft) * cnj (in0 ! nat ((N_fft + c) mod N_fft)))
       \<and> (\<forall>p. p < nat k \<longrightarrow> out' ! p = out_vec ! p)"
      using Suc.prems True iM by (intro Suc.hyps(1) [OF m]) auto
    then obtain out' where o: "CalculateDQPSK_loop M N_fft in0 in1 (i + 1) k out_vec = Inr out'"
      "length out' = n"
      "\<forall>c. i + 1 \<le> c \<and> c \<le> M \<and> c \<noteq> 0 \<longrightarrow>
             out' ! nat (if c < 0 then c + M else c + M - 1)
               = in1 ! nat ((N_fft + c) mod N_fft) * cnj (in0 ! nat ((N_fft + c) mod N_fft))"
      "\<forall>p. p < nat k \<longrightarrow> out' ! p = out_vec ! p" by blast
    have "CalculateDQPSK_loop M N_fft in0 in1 i k out_vec = Inr out'"
      using o(1) True iM by (subst CalculateDQPSK_loop.simps) simp
    moreover have "\<forall>c. i \<le> c \<and> c \<le> M \<and> c \<noteq> 0 \<longrightarrow>
             out' ! nat (if c < 0 then c + M else c + M - 1)
               = in1 ! nat ((N_fft + c) mod N_fft) * cnj (in0 ! nat ((N_fft + c) mod N_fft))"
    proof (intro allI impI)
      fix c assume "i \<le> c \<and> c \<le> M \<and> c \<noteq> 0"
      then have "i + 1 \<le> c \<and> c \<le> M \<and> c \<noteq> 0" using True by auto
      then show "out' ! nat (if c < 0 then c + M else c + M - 1)
               = in1 ! nat ((N_fft + c) mod N_fft) * cnj (in0 ! nat ((N_fft + c) mod N_fft))"
        using o(3) by blast
    qed
    ultimately show ?thesis using o(2,4) by blast
  next
    case i0: False
    define idx where "idx = c_rem (N_fft + i) N_fft"
    have idx: "idx = (N_fft + i) mod N_fft" "0 \<le> idx" "idx < N_fft"
      using Suc.prems assms unfolding idx_def by (simp_all add: c_rem_nonneg)
    define z1 where "z1 = in1 ! nat idx"
    define z0 where "z0 = in0 ! nat idx"
    have r1: "span_read in1 idx = Inr z1" and r0: "span_read in0 idx = Inr z0"
      using idx assms by (simp_all add: span_read_def z1_def z0_def)
    have k: "0 \<le> k" "k < int (length out_vec)" "k < 2 * M"
      using Suc.prems assms iM i0 by (auto split: if_splits)
    define out1 where "out1 = out_vec[nat k := z1 * cnj z0]"
    have w: "span_write out_vec k (z1 * cnj z0) = Inr out1"
      using k by (simp add: span_write_def out1_def)
    have "\<exists>out'. CalculateDQPSK_loop M N_fft in0 in1 (i + 1) (k + 1) out1 = Inr out' \<and> length out' = n
       \<and> (\<forall>c. i + 1 \<le> c \<and> c \<le> M \<and> c \<noteq> 0 \<longrightarrow>
             out' ! nat (if c < 0 then c + M else c + M - 1)
               = in1 ! nat ((N_fft + c) mod N_fft) * cnj (in0 ! nat ((N_fft + c) mod N_fft)))
       \<and> (\<forall>p. p < nat (k + 1) \<longrightarrow> out' ! p = out1 ! p)"
      using Suc.prems i0 iM by (intro Suc.hyps(1) [OF m]) (auto simp: out1_def)
    then obtain out' where o: "CalculateDQPSK_loop M N_fft in0 in1 (i + 1) (k + 1) out1 = Inr out'"
      "length out' = n"
      "\<forall>c. i + 1 \<le> c \<and> c \<le> M \<and> c \<noteq> 0 \<longrightarrow>
             out' ! nat (if c < 0 then c + M else c + M - 1)
               = in1 ! nat ((N_fft + c) mod N_fft) * cnj (in0 ! nat ((N_fft + c) mod N_fft))"
      "\<forall>p. p < nat (k + 1) \<longrightarrow> out' ! p = out1 ! p" by blast
    have run: "CalculateDQPSK_loop M N_fft in0 in1 i k out_vec = Inr out'"
      using o(1) i0 iM r1 r0 w unfolding idx_def
      by (subst CalculateDQPSK_loop.simps) (simp add: Let_def)
    have here: "out' ! nat k = z1 * cnj z0"
      using o(4) k Suc.prems by (simp add: out1_def)
    have kpos: "nat k = nat (if i < 0 then i + M else i + M - 1)"
      using Suc.prems i0 by auto
    have ent: "\<forall>c. i \<le> c \<and> c \<le> M \<and> c \<noteq> 0 \<longrightarrow>
             out' ! nat (if c < 0 then c + M else c + M - 1)
               = in1 ! nat ((N_fft + c) mod N_fft) * cnj (in0 ! nat ((N_fft + c) mod N_fft))"
    proof (intro allI impI)
      fix c assume c: "i \<le> c \<and> c \<le> M \<and> c \<noteq> 0"
      show "out' ! nat (if c < 0 then c + M else c + M - 1)
               = in1 ! nat ((N_fft + c) mod N_fft) * cnj (in0 ! nat ((N_fft + c) mod N_fft))"
      proof (cases "c = i")
        case True
        then show ?thesis using here kpos idx(1) by (auto simp: z1_def z0_def split: if_splits)
      next
        case False
        then have "i + 1 \<le> c \<and> c \<le> M \<and> c \<noteq> 0" using c by auto
        then show ?thesis using o(3) by blast
      qed
    qed
    have old: "\<forall>p. p < nat k \<longrightarrow> out' ! p = out_vec ! p"
      using o(4) k by (auto simp: out1_def)
    show ?thesis using run o(2) ent old by blast
  qed
qed

lemma CalculateDQPSK_entries:
  assumes "0 < nb_fft params" "nb_data_carriers params div 2 \<le> nb_fft params"
    and "length in0 = nb_fft params" "length in1 = nb_fft params"
    and "length out_vec = nb_data_carriers params"
  shows "\<exists>out'. CalculateDQPSK params in0 in1 out_vec = Inr out'
     \<and> length out' = nb_data_carriers params
     \<and> (\<forall>c. - (int (nb_data_carriers params) div 2) \<le> c \<and> c \<le> int (nb_data_carriers params) div 2 \<and> c \<noteq> 0
          \<longrightarrow> out' ! dqpsk_position params c
                = in1 ! fft_index params c * cnj (in0 ! fft_index params c))"
proof -
  define M where "M = int (nb_data_carriers params) div 2"
  define N_fft where "N_fft = int (nb_fft params)"
  have "\<exists>out'. CalculateDQPSK_loop M N_fft in0 in1 (- M) 0 out_vec = Inr out'
       \<and> length out' = nb_data_carriers params
       \<and> (\<forall>c. - M \<le> c \<and> c \<le> M \<and> c \<noteq> 0 \<longrightarrow>
             out' ! nat (if c < 0 then c + M else c + M - 1)
               = in1 ! nat ((N_fft + c) mod N_fft) * cnj (in0 ! nat ((N_fft + c) mod N_fft)))
       \<and> (\<forall>p. p < nat 0 \<longrightarrow> out' ! p = out_vec ! p)"
    using assms by (intro CalculateDQPSK_loop_entries) (auto simp: M_def N_fft_def)
  then show ?thesis
    unfolding CalculateDQPSK_def Let_def M_def N_fft_def dqpsk_position_def fft_index_def
    by auto
qed

lemma calculate_dqpsk_vec_of_buffers:
  assumes "0 < nb_fft params" "nb_data_carriers params div 2 \<le> nb_fft params"
    and "(s + 2) * nb_fft params \<le> length (pipeline_fft_buffer bufs)"
    and "(s + 1) * nb_data_carriers params \<le> length (pipeline_dqpsk_vec_buffer bufs)"
  shows "\<exists>vec. calculate_dqpsk_vec params bufs s = Inr vec
     \<and> length vec = nb_data_carriers params
     \<and> (\<forall>c. - (int (nb_data_carriers params) div 2) \<le> c \<and> c \<le> int (nb_data_carriers params) div 2 \<and> c \<noteq> 0
          \<longrightarrow> vec ! dqpsk_position params c
                = fft_of_symbol params bufs s ! fft_index params c
                  * cnj (fft_of_symbol params bufs (s + 1) ! fft_index params c))"
proof -
  let ?n = "nb_fft params"
  have s0: "subspan (pipeline_fft_buffer bufs) ((s + 0) * ?n) ?n = Inr (fft_of_symbol params bufs s)"
    using assms(3) by (simp add: subspan_def fft_of_symbol_def)
  have s1: "subspan (pipeline_fft_buffer bufs) ((s + 1) * ?n) ?n = Inr (fft_of_symbol params bufs (s + 1))"
    using assms(3) by (simp add: subspan_def fft_of_symbol_def)
  define dv where "dv = take (nb_data_carriers params) (drop (s * nb_data_carriers params) (pipeline_dqpsk_vec_buffer bufs))"
  have s2: "subspan (pipeline_dqpsk_vec_buffer bufs) (s * nb_data_carriers params) (nb_data_carriers params) = Inr dv"
    using assms(4) by (simp add: subspan_def dv_def)
  have l0: "length (fft_of_symbol params bufs s) = ?n" "length (fft_of_symbol params bufs (s + 1)) = ?n"
    using assms(3) by (simp_all add: fft_of_symbol_def)
  have l2: "length dv = nb_data_carriers params"
    using assms(4) by (simp add: dv_def)
  show ?thesis
    unfolding calculate_dqpsk_vec_def s0 s1 s2 bindE_Inr
    using CalculateDQPSK_entries [OF assms(1,2) l0(2) l0(1) l2] by simp
qed

lemma nth_subspan_store:
  "offset + length ys \<le> length xs \<Longrightarrow> j < length xs \<Longrightarrow>
    subspan_store xs offset ys ! j
      = (if offset \<le> j \<and> j < offset + length ys then ys ! (j - offset) else xs ! j)"
  by (auto simp: subspan_store_def nth_append)

lemma length_subspan_store:
  "offset + length ys \<le> length xs \<Longrightarrow> length (subspan_store xs offset ys) = length xs"
  by (simp add: subspan_store_def)

lemma block_index_less: "s < i \<Longrightarrow> k < n \<Longrightarrow> s * n + k < i * (n::nat)"
proof -
  assume "s < i" "k < n"
  then have "s * n + k < s * n + n" by simp
  also have "\<dots> = Suc s * n" by simp
  also have "\<dots> \<le> i * n" using \<open>s < i\<close> by (intro mult_le_mono1) simp
  finally show ?thesis .
qed

lemma take_drop_subspan_store:
  assumes "length ys = n" "(i + 1) * n \<le> length xs" "(s + 1) * n \<le> length xs"
  shows "take n (drop (s * n) (subspan_store xs (i * n) ys))
     = (if s = i then ys else take n (drop (s * n) xs))"
proof -
  have len: "i * n + length ys \<le> length xs" using assms by simp
  have l: "length (subspan_store xs (i * n) ys) = length xs"
    by (rule length_subspan_store [OF len])
  have sn: "s * n + n \<le> length xs" using assms(3) by simp
  show ?thesis
  proof (rule nth_equalityI)
    show "length (take n (drop (s * n) (subspan_store xs (i * n) ys)))
        = length (if s = i then ys else take n (drop (s * n) xs))"
      using l sn assms(1) by simp
  next
    fix k assume "k < length (take n (drop (s * n) (subspan_store xs (i * n) ys)))"
    then have k: "k < n" by simp
    then have j: "s * n + k < length xs" using sn by simp
    have "take n (drop (s * n) (subspan_store xs (i * n) ys)) ! k
        = subspan_store xs (i * n) ys ! (s * n + k)"
      using k l sn by simp
    also have "\<dots> = (if i * n \<le> s * n + k \<and> s * n + k < i * n + length ys
          then ys ! (s * n + k - i * n) else xs ! (s * n + k))"
      by (rule nth_subspan_store [OF len j])
    also have "\<dots> = (if s = i then ys else take n (drop (s * n) xs)) ! k"
    proof (cases "s = i")
      case True
      then show ?thesis using k assms(1) by simp
    next
      case False
      then consider "s < i" | "i < s" by linarith
      then have "\<not> (i * n \<le> s * n + k \<and> s * n + k < i * n + length ys)"
      proof cases
        case 1
        then show ?thesis using block_index_less [OF 1 k] by simp
      next
        case 2
        have "i * n + length ys = Suc i * n" using assms(1) by simp
        also have "\<dots> \<le> s * n" using 2 by (intro mult_le_mono1) simp
        finally show ?thesis by simp
      qed
      then show ?thesis using False k sn by auto
    qed
    finally show "take n (drop (s * n) (subspan_store xs (i * n) ys)) ! k
        = (if s = i then ys else take n (drop (s * n) xs)) ! k" .
  qed
qed

lemma calculate_fft_symbol_result:
  assumes plans: "\<forall>xs. length (fft_plan plans xs) = length xs"
    and syms: "\<forall>j<length symbols. nb_cyclic_prefix params + nb_fft params \<le> length (symbols ! j)"
    and i: "i < length symbols"
    and len: "length (pipeline_fft_buffer bufs) = length symbols * nb_fft params"
  shows "\<exists>bufs'. calculate_fft_symbol params plans symbols bufs i = Inr bufs'
     \<and> length (pipeline_fft_buffer bufs') = length symbols * nb_fft params
     \<and> pipeline_dqpsk_vec_buffer bufs' = pipeline_dqpsk_vec_buffer bufs
     \<and> (\<forall>s<length symbols. fft_of_symbol params bufs' s
           = (if s = i then symbol_fft params plans symbols i else fft_of_symbol params bufs s))"
proof -
  let ?n = "nb_fft params"
  let ?data = "take ?n (drop (nb_cyclic_prefix params) (symbols ! i))"
  let ?out = "CalculateFFT params plans ?data"
  have r: "span_read symbols (int i) = Inr (symbols ! i)" using i by (simp add: span_read_def)
  have d: "subspan (symbols ! i) (nb_cyclic_prefix params) ?n = Inr ?data"
    using syms i by (simp add: subspan_def)
  have "nb_cyclic_prefix params + ?n \<le> length (symbols ! i)" using syms i by blast
  then have ld: "length ?data = ?n" by simp
  have lo: "length ?out = ?n" using plans ld by (simp add: CalculateFFT_def)
  have out: "?out = symbol_fft params plans symbols i"
    using ld by (simp add: CalculateFFT_def symbol_fft_def)
  have in1: "(i + 1) * ?n \<le> length (pipeline_fft_buffer bufs)"
    using i len by (metis Suc_eq_plus1 Suc_leI mult_le_mono1)
  then have f: "subspan (pipeline_fft_buffer bufs) (i * ?n) ?n
      = Inr (take ?n (drop (i * ?n) (pipeline_fft_buffer bufs)))"
    by (simp add: subspan_def)
  define bufs' where "bufs' = bufs\<lparr>pipeline_fft_buffer :=
      subspan_store (pipeline_fft_buffer bufs) (i * ?n) ?out\<rparr>"
  have run: "calculate_fft_symbol params plans symbols bufs i = Inr bufs'"
    by (simp add: calculate_fft_symbol_def r d f bufs'_def)
  have l': "length (pipeline_fft_buffer bufs') = length symbols * ?n"
    using in1 lo len by (simp add: bufs'_def length_subspan_store)
  have e: "fft_of_symbol params bufs' s
      = (if s = i then symbol_fft params plans symbols i else fft_of_symbol params bufs s)"
    if "s < length symbols" for s
  proof -
    have "(s + 1) * ?n \<le> length (pipeline_fft_buffer bufs)"
      using that len by (metis Suc_eq_plus1 Suc_leI mult_le_mono1)
    from take_drop_subspan_store [OF lo in1 this]
    show ?thesis by (simp add: fft_of_symbol_def bufs'_def out)
  qed
  show ?thesis using run l' e by (auto simp: bufs'_def)
qed

lemma calculate_fft_result:
  assumes plans: "\<forall>xs. length (fft_plan plans xs) = length xs"
    and syms: "\<forall>j<length symbols. nb_cyclic_prefix params + nb_fft params \<le> length (symbols ! j)"
  shows "\<forall>i\<in>set is. i < length symbols \<Longrightarrow>
    length (pipeline_fft_buffer bufs) = length symbols * nb_fft params \<Longrightarrow>
    \<exists>bufs'. calculate_fft params plans symbols bufs is = Inr bufs'
     \<and> length (pipeline_fft_buffer bufs') = length symbols * nb_fft params
     \<and> pipeline_dqpsk_vec_buffer bufs' = pipeline_dqpsk_vec_buffer bufs
     \<and> (\<forall>s<length symbols. fft_of_symbol params bufs' s
           = (if s \<in> set is then symbol_fft params plans symbols s else fft_of_symbol params bufs s))"
proof (induction "is" arbitrary: bufs)
  case Nil
  then show ?case by simp
next
  case (Cons i "is")
  have i: "i < length symbols" using Cons.prems(1) by simp
  from calculate_fft_symbol_result [OF plans syms i Cons.prems(2)]
  obtain b1 where b1: "calculate_fft_symbol params plans symbols bufs i = Inr b1"
    "length (pipeline_fft_buffer b1) = length symbols * nb_fft params"
    "pipeline_dqpsk_vec_buffer b1 = pipeline_dqpsk_vec_buffer bufs"
    "\<forall>s<length symbols. fft_of_symbol params b1 s
           = (if s = i then symbol_fft params plans symbols i else fft_of_symbol params bufs s)"
    by blast
  have "\<forall>i\<in>set is. i < length symbols" using Cons.prems(1) by simp
  from Cons.IH [OF this b1(2)]
  obtain b2 where b2: "calculate_fft params plans symbols b1 is = Inr b2"
    "length (pipeline_fft_buffer b2) = length symbols * nb_fft params"
    "pipeline_dqpsk_vec_buffer b2 = pipeline_dqpsk_vec_buffer b1"
    "\<forall>s<length symbols. fft_of_symbol params b2 s
           = (if s \<in> set is then symbol_fft params plans symbols s else fft_of_symbol params b1 s)"
    by blast
  show ?case
    using b1 b2 by auto
qed


text \<open>
  C1, as the code has it. For a frame whose symbols have been transformed by
  \<^verbatim>\<open>calculate_fft\<close> (buffers of the sizes the constructor allocates, an FFT that returns as
  many values as it is given), every symbol pair \<open>(s, s + 1)\<close> with
  \<open>s \<in> [0, nb_frame_symbols - 1)\<close> and every carrier \<open>c \<in> [-M, M]\<close>, \<open>c \<noteq> 0\<close>,
  \<open>M = nb_data_carriers / 2\<close>: the entry written for \<open>c\<close> is
  \<open>fft[s][fft_index c] * conj (fft[s + 1][fft_index c])\<close>, where \<open>fft[s]\<close> is the FFT of
  symbol \<open>s\<close> after the removal of its cyclic prefix. This is the conjugate of the product
  the specification names, since the lambda passes the FFT of symbol \<open>s + 1\<close> as \<open>in0\<close>.
  (\<^verbatim>\<open>CalculateViterbiBits\<close> then negates the imaginary part.)
\<close>

theorem calculate_dqpsk_vec_frame:
  assumes "0 < nb_fft params" and "nb_data_carriers params \<le> nb_fft params"
    and "\<forall>xs. length (fft_plan plans xs) = length xs"
    and "length symbols = nb_frame_symbols params + 1"
    and "\<forall>j<length symbols. nb_cyclic_prefix params + nb_fft params \<le> length (symbols ! j)"
    and "length (pipeline_fft_buffer bufs0) = (nb_frame_symbols params + 1) * nb_fft params"
    and "length (pipeline_dqpsk_vec_buffer bufs0) = (nb_frame_symbols params - 1) * nb_fft params"
    and "s + 1 < nb_frame_symbols params"
  shows "\<exists>bufs vec.
       calculate_fft params plans symbols bufs0 [0..<nb_frame_symbols params + 1] = Inr bufs
     \<and> fft_of_symbol params bufs s = symbol_fft params plans symbols s
     \<and> fft_of_symbol params bufs (s + 1) = symbol_fft params plans symbols (s + 1)
     \<and> calculate_dqpsk_vec params bufs s = Inr vec
     \<and> length vec = nb_data_carriers params
     \<and> (\<forall>c. - (int (nb_data_carriers params) div 2) \<le> c
            \<and> c \<le> int (nb_data_carriers params) div 2 \<and> c \<noteq> 0 \<longrightarrow>
          vec ! dqpsk_position params c
            = symbol_fft params plans symbols s ! fft_index params c
              * cnj (symbol_fft params plans symbols (s + 1) ! fft_index params c))"
proof -
  let ?n = "nb_frame_symbols params"
  have "\<exists>bufs'. calculate_fft params plans symbols bufs0 [0..<?n + 1] = Inr bufs'
     \<and> length (pipeline_fft_buffer bufs') = length symbols * nb_fft params
     \<and> pipeline_dqpsk_vec_buffer bufs' = pipeline_dqpsk_vec_buffer bufs0
     \<and> (\<forall>s<length symbols. fft_of_symbol params bufs' s
           = (if s \<in> set [0..<?n + 1] then symbol_fft params plans symbols s
              else fft_of_symbol params bufs0 s))"
    using assms(4,6) by (intro calculate_fft_result [OF assms(3,5)]) simp_all
  then obtain bufs where b: "calculate_fft params plans symbols bufs0 [0..<?n + 1] = Inr bufs"
    "length (pipeline_fft_buffer bufs) = length symbols * nb_fft params"
    "pipeline_dqpsk_vec_buffer bufs = pipeline_dqpsk_vec_buffer bufs0"
    "\<forall>s<length symbols. fft_of_symbol params bufs s
           = (if s \<in> set [0..<?n + 1] then symbol_fft params plans symbols s
              else fft_of_symbol params bufs0 s)"
    by blast
  have f: "fft_of_symbol params bufs s = symbol_fft params plans symbols s"
    "fft_of_symbol params bufs (s + 1) = symbol_fft params plans symbols (s + 1)"
    using b(4) assms(4,8) by simp_all
  have h2: "nb_data_carriers params div 2 \<le> nb_fft params" using assms(2) by simp
  have "(s + 2) * nb_fft params \<le> (?n + 1) * nb_fft params"
    using assms(8) by (intro mult_le_mono1) simp
  then have h3: "(s + 2) * nb_fft params \<le> length (pipeline_fft_buffer bufs)"
    using b(2) assms(4) by simp
  have "(s + 1) * nb_data_carriers params \<le> (?n - 1) * nb_fft params"
    using assms(2,8) by (intro mult_le_mono) simp_all
  then have h4: "(s + 1) * nb_data_carriers params \<le> length (pipeline_dqpsk_vec_buffer bufs)"
    using b(3) assms(7) by simp
  from calculate_dqpsk_vec_of_buffers [OF assms(1) h2 h3 h4]
  show ?thesis using b(1) f by auto
qed

theorem calculate_dqpsk_vec_frame_witness:
  "0 < nb_fft example_params \<and> nb_data_carriers example_params \<le> nb_fft example_params
   \<and> length example_symbols = nb_frame_symbols example_params + 1
   \<and> length (pipeline_fft_buffer example_buffers)
       = (nb_frame_symbols example_params + 1) * nb_fft example_params
   \<and> length (pipeline_dqpsk_vec_buffer example_buffers)
       = (nb_frame_symbols example_params - 1) * nb_fft example_params
   \<and> 0 + 1 < nb_frame_symbols example_params
   \<and> (\<exists>bufs vec.
         calculate_fft example_params example_plans example_symbols example_buffers
           [0..<nb_frame_symbols example_params + 1] = Inr bufs
       \<and> calculate_dqpsk_vec example_params bufs 0 = Inr vec
       \<and> vec ! dqpsk_position example_params 1
           = symbol_fft example_params example_plans example_symbols 0 ! fft_index example_params 1
             * cnj (symbol_fft example_params example_plans example_symbols (0 + 1)
                 ! fft_index example_params 1))"
proof -
  have h: "0 < nb_fft example_params" "nb_data_carriers example_params \<le> nb_fft example_params"
    "\<forall>xs. length (fft_plan example_plans xs) = length xs"
    "length example_symbols = nb_frame_symbols example_params + 1"
    "\<forall>j<length example_symbols.
       nb_cyclic_prefix example_params + nb_fft example_params \<le> length (example_symbols ! j)"
    "length (pipeline_fft_buffer example_buffers)
       = (nb_frame_symbols example_params + 1) * nb_fft example_params"
    "length (pipeline_dqpsk_vec_buffer example_buffers)
       = (nb_frame_symbols example_params - 1) * nb_fft example_params"
    "0 + 1 < nb_frame_symbols example_params"
    by (simp_all add: example_params_def example_plans_def example_symbols_def
        example_buffers_def less_Suc_eq numeral_3_eq_3)
  have c: "- (int (nb_data_carriers example_params) div 2) \<le> 1
    \<and> 1 \<le> int (nb_data_carriers example_params) div 2 \<and> (1::int) \<noteq> 0"
    by (simp add: example_params_def)
  show ?thesis
    using h(1,2,4,6,7,8) c calculate_dqpsk_vec_frame [OF h] by blast
qed

text \<open>On the example buffers symbol 0 has \<open>1\<close> and symbol 1 has \<open>\<i>\<close> in bin 1. The entry
  written for carrier 1 is \<open>1 * conj \<i> = -\<i>\<close>; C1 as stated asks for \<open>\<i> * conj 1 = \<i>\<close>.\<close>

theorem calculate_dqpsk_vec_counterexample:
  "calculate_dqpsk_vec example_params example_buffers 0 = Inr [- \<i>, - \<i>]
   \<and> [- \<i>, - \<i>] ! dqpsk_position example_params 1 = - \<i>
   \<and> fft_of_symbol example_params example_buffers (0 + 1) ! fft_index example_params 1
       * cnj (fft_of_symbol example_params example_buffers 0 ! fft_index example_params 1) = \<i>
   \<and> - \<i> \<noteq> \<i>"
  by (simp add: calculate_dqpsk_vec_def example_params_def example_buffers_def subspan_def
      CalculateDQPSK_def CalculateDQPSK_loop.simps c_rem_def span_read_def span_write_def
      dqpsk_position_def fft_of_symbol_def fft_index_def Let_def complex_eq_iff)

subsection \<open>Soft bits of a DQPSK vector\<close>

lemma viterbi_bits_of_carrier_nonzero:
  assumes "0 \<le> HIGH" "HIGH < 2 ^ (w - 1)" "0 < max \<bar>Re vec\<bar> \<bar>Im vec\<bar>"
  shows "\<exists>b0 b1. viterbi_bits_of_carrier HIGH w vec = Inr (b0, b1) \<and> \<bar>b0\<bar> \<le> HIGH \<and> \<bar>b1\<bar> \<le> HIGH"
proof -
  define A where "A = max \<bar>Re vec\<bar> \<bar>Im vec\<bar>"
  have A: "0 < A" "\<bar>Re vec\<bar> \<le> A" "\<bar>Im vec\<bar> \<le> A"
    using assms(3) by (simp_all add: A_def)
  have re: "\<bar>Re vec / A\<bar> \<le> 1" and im: "\<bar>- (Im vec / A)\<bar> \<le> 1"
    using A by (simp_all add: field_simps)
  show ?thesis
    unfolding viterbi_bits_of_carrier_def Let_def A_def [symmetric] complex_div_float_def
    using A(1) convert_to_viterbi_bit_unit [OF assms(1,2) re]
      convert_to_viterbi_bit_unit [OF assms(1,2) im]
    by simp
qed

lemma viterbi_bits_of_carrier_zero:
  "viterbi_bits_of_carrier HIGH w 0 = Inl DivisionByZero"
  by (simp add: viterbi_bits_of_carrier_def complex_div_float_def)

lemma max_abs_zero_iff: "max \<bar>Re vec\<bar> \<bar>Im vec\<bar> = 0 \<longleftrightarrow> vec = 0"
  by (auto simp: complex_eq_iff max_def split: if_splits)

lemma CalculateViterbiBits_loop_ok:
  assumes "0 \<le> HIGH" "HIGH < 2 ^ (w - 1)" "length carrier_mapper = N"
    and "\<forall>i<N. 0 \<le> carrier_mapper ! i \<and> carrier_mapper ! i < int (length vec_buf)"
    and "2 * N \<le> n"
  shows "i \<le> N \<Longrightarrow> length bit_buf = n \<Longrightarrow>
     \<forall>j. i \<le> j \<and> j < N \<longrightarrow> vec_buf ! nat (carrier_mapper ! j) \<noteq> 0 \<Longrightarrow>
     \<exists>bits. CalculateViterbiBits_loop N carrier_mapper HIGH w vec_buf i bit_buf = Inr bits
       \<and> length bits = n
       \<and> (\<forall>j. i \<le> j \<and> j < N \<longrightarrow> \<bar>bits ! j\<bar> \<le> HIGH \<and> \<bar>bits ! (j + N)\<bar> \<le> HIGH)
       \<and> (\<forall>p. p < i \<or> (N \<le> p \<and> p < i + N) \<longrightarrow> bits ! p = bit_buf ! p)"
proof (induction "N - i" arbitrary: i bit_buf)
  case 0
  then have "\<not> i < N" by simp
  then show ?case using 0
    by (subst CalculateViterbiBits_loop.simps) auto
next
  case (Suc m)
  then have iN: "i < N" by simp
  have m: "m = N - (i + 1)" using Suc(2) by simp
  define j where "j = carrier_mapper ! i"
  have j: "0 \<le> j" "j < int (length vec_buf)" using assms(4) iN by (simp_all add: j_def)
  have rj: "span_read carrier_mapper (int i) = Inr j"
    using iN assms(3) by (simp add: span_read_def j_def)
  define vec where "vec = vec_buf ! nat j"
  have rv: "span_read vec_buf j = Inr vec"
    using j by (simp add: span_read_def vec_def)
  have "vec \<noteq> 0" using Suc.prems(3) iN by (simp add: vec_def j_def)
  then have "0 < max \<bar>Re vec\<bar> \<bar>Im vec\<bar>"
    using max_abs_zero_iff [of vec] by (smt (verit) abs_ge_zero max.cobounded1)
  from viterbi_bits_of_carrier_nonzero [OF assms(1,2) this]
  obtain b0 b1 where b: "viterbi_bits_of_carrier HIGH w vec = Inr (b0, b1)"
    "\<bar>b0\<bar> \<le> HIGH" "\<bar>b1\<bar> \<le> HIGH" by blast
  define buf1 where "buf1 = bit_buf[i := b0]"
  define buf2 where "buf2 = buf1[i + N := b1]"
  have w1: "span_write bit_buf (int i) b0 = Inr buf1"
    using iN assms(5) Suc.prems(2) by (simp add: span_write_def buf1_def)
  have w2: "span_write buf1 (int (i + N)) b1 = Inr buf2"
    using iN assms(5) Suc.prems(2) by (simp add: span_write_def buf1_def buf2_def nat_add_distrib)
  have l2: "length buf2 = n" using Suc.prems(2) by (simp add: buf1_def buf2_def)
  have "\<exists>bits. CalculateViterbiBits_loop N carrier_mapper HIGH w vec_buf (i + 1) buf2 = Inr bits
       \<and> length bits = n
       \<and> (\<forall>j. i + 1 \<le> j \<and> j < N \<longrightarrow> \<bar>bits ! j\<bar> \<le> HIGH \<and> \<bar>bits ! (j + N)\<bar> \<le> HIGH)
       \<and> (\<forall>p. p < i + 1 \<or> (N \<le> p \<and> p < i + 1 + N) \<longrightarrow> bits ! p = buf2 ! p)"
    using iN l2 Suc.prems(3) by (intro Suc.hyps(1) [OF m]) auto
  then obtain bits where o:
    "CalculateViterbiBits_loop N carrier_mapper HIGH w vec_buf (i + 1) buf2 = Inr bits"
    "length bits = n"
    "\<forall>j. i + 1 \<le> j \<and> j < N \<longrightarrow> \<bar>bits ! j\<bar> \<le> HIGH \<and> \<bar>bits ! (j + N)\<bar> \<le> HIGH"
    "\<forall>p. p < i + 1 \<or> (N \<le> p \<and> p < i + 1 + N) \<longrightarrow> bits ! p = buf2 ! p" by blast
  have run: "CalculateViterbiBits_loop N carrier_mapper HIGH w vec_buf i bit_buf = Inr bits"
    using iN rj rv b(1) w1 w2 o(1)
    by (subst CalculateViterbiBits_loop.simps) simp
  have at_i: "bits ! i = b0" "bits ! (i + N) = b1"
    using o(4) iN assms(5) Suc.prems(2) by (simp_all add: buf1_def buf2_def)
  have rng: "\<forall>j. i \<le> j \<and> j < N \<longrightarrow> \<bar>bits ! j\<bar> \<le> HIGH \<and> \<bar>bits ! (j + N)\<bar> \<le> HIGH"
  proof (intro allI impI)
    fix j assume j: "i \<le> j \<and> j < N"
    show "\<bar>bits ! j\<bar> \<le> HIGH \<and> \<bar>bits ! (j + N)\<bar> \<le> HIGH"
    proof (cases "j = i")
      case True
      then show ?thesis using at_i b(2,3) by simp
    next
      case False
      then have "i + 1 \<le> j \<and> j < N" using j by simp
      then show ?thesis using o(3) by blast
    qed
  qed
  have old: "\<forall>p. p < i \<or> (N \<le> p \<and> p < i + N) \<longrightarrow> bits ! p = bit_buf ! p"
    using o(4) iN by (auto simp: buf1_def buf2_def)
  show ?case using run o(2) rng old by blast
qed

lemma CalculateViterbiBits_loop_zero:
  assumes "0 \<le> HIGH" "HIGH < 2 ^ (w - 1)" "length carrier_mapper = N"
    and "\<forall>i<N. 0 \<le> carrier_mapper ! i \<and> carrier_mapper ! i < int (length vec_buf)"
    and "2 * N \<le> n"
  shows "i \<le> z \<Longrightarrow> z < N \<Longrightarrow> length bit_buf = n \<Longrightarrow> vec_buf ! nat (carrier_mapper ! z) = 0 \<Longrightarrow>
     CalculateViterbiBits_loop N carrier_mapper HIGH w vec_buf i bit_buf = Inl DivisionByZero"
proof (induction "z - i" arbitrary: i bit_buf)
  case 0
  then have iz: "i = z" and iN: "i < N" by simp_all
  define j where "j = carrier_mapper ! i"
  have j: "0 \<le> j" "j < int (length vec_buf)" using assms(4) iN by (simp_all add: j_def)
  have rj: "span_read carrier_mapper (int i) = Inr j"
    using iN assms(3) by (simp add: span_read_def j_def)
  have rv: "span_read vec_buf j = Inr 0"
    using j 0 iz by (simp add: span_read_def j_def)
  show ?case using iN rj rv
    by (subst CalculateViterbiBits_loop.simps) (simp add: viterbi_bits_of_carrier_zero)
next
  case (Suc m)
  then have iN: "i < N" and iz: "i < z" by simp_all
  have m: "m = z - (i + 1)" using Suc(2) by simp
  define j where "j = carrier_mapper ! i"
  have j: "0 \<le> j" "j < int (length vec_buf)" using assms(4) iN by (simp_all add: j_def)
  have rj: "span_read carrier_mapper (int i) = Inr j"
    using iN assms(3) by (simp add: span_read_def j_def)
  define vec where "vec = vec_buf ! nat j"
  have rv: "span_read vec_buf j = Inr vec"
    using j by (simp add: span_read_def vec_def)
  show ?case
  proof (cases "vec = 0")
    case True
    then show ?thesis using iN rj rv
      by (subst CalculateViterbiBits_loop.simps) (simp add: viterbi_bits_of_carrier_zero)
  next
    case False
    then have "0 < max \<bar>Re vec\<bar> \<bar>Im vec\<bar>"
      using max_abs_zero_iff [of vec] by (smt (verit) abs_ge_zero max.cobounded1)
    from viterbi_bits_of_carrier_nonzero [OF assms(1,2) this]
    obtain b0 b1 where b: "viterbi_bits_of_carrier HIGH w vec = Inr (b0, b1)" by blast
    define buf1 where "buf1 = bit_buf[i := b0]"
    define buf2 where "buf2 = buf1[i + N := b1]"
    have w1: "span_write bit_buf (int i) b0 = Inr buf1"
      using iN assms(5) Suc.prems(3) by (simp add: span_write_def buf1_def)
    have w2: "span_write buf1 (int (i + N)) b1 = Inr buf2"
      using iN assms(5) Suc.prems(3) by (simp add: span_write_def buf1_def buf2_def nat_add_distrib)
    have l2: "length buf2 = n" using Suc.prems(3) by (simp add: buf1_def buf2_def)
    have "CalculateViterbiBits_loop N carrier_mapper HIGH w vec_buf (i + 1) buf2 = Inl DivisionByZero"
      using iz Suc.prems l2 by (intro Suc.hyps(1) [OF m]) auto
    then show ?thesis using iN rj rv b w1 w2
      by (subst CalculateViterbiBits_loop.simps) simp
  qed
qed

text \<open>
  C10. \<^verbatim>\<open>CalculateViterbiBits\<close> divides each element by
  \<open>A = max \<bar>real part\<bar> \<bar>imaginary part\<bar>\<close> with no guard. For an element with \<open>A > 0\<close>
  both soft bits have magnitude at most \<open>HIGH\<close>; for an element that is zero the division
  by \<open>A = 0\<close> is reached. Over a whole vector (the carrier mapper within range, the output
  of \<open>2 * nb_data_carriers\<close> bits): when no mapped element is zero every bit written has
  magnitude at most \<open>HIGH\<close>, and when one is zero the call reaches the division by zero.
\<close>

theorem CalculateViterbiBits_magnitude_and_zero:
  assumes "0 \<le> HIGH" "HIGH < 2 ^ (w - 1)"
    and "length carrier_mapper = nb_data_carriers params"
    and "\<forall>i<nb_data_carriers params. 0 \<le> carrier_mapper ! i \<and> carrier_mapper ! i < int (length vec_buf)"
    and "length bit_buf = 2 * nb_data_carriers params"
  shows "(0 < max \<bar>Re vec\<bar> \<bar>Im vec\<bar> \<longrightarrow>
            (\<exists>b0 b1. viterbi_bits_of_carrier HIGH w vec = Inr (b0, b1) \<and> \<bar>b0\<bar> \<le> HIGH \<and> \<bar>b1\<bar> \<le> HIGH))
     \<and> viterbi_bits_of_carrier HIGH w 0 = Inl DivisionByZero
     \<and> ((\<forall>i<nb_data_carriers params. vec_buf ! nat (carrier_mapper ! i) \<noteq> 0) \<longrightarrow>
            (\<exists>bits. CalculateViterbiBits params carrier_mapper HIGH w vec_buf bit_buf = Inr bits
               \<and> length bits = 2 * nb_data_carriers params
               \<and> (\<forall>p<2 * nb_data_carriers params. \<bar>bits ! p\<bar> \<le> HIGH)))
     \<and> ((\<exists>i<nb_data_carriers params. vec_buf ! nat (carrier_mapper ! i) = 0) \<longrightarrow>
            CalculateViterbiBits params carrier_mapper HIGH w vec_buf bit_buf = Inl DivisionByZero)"
proof (intro conjI impI)
  assume "0 < max \<bar>Re vec\<bar> \<bar>Im vec\<bar>"
  then show "\<exists>b0 b1. viterbi_bits_of_carrier HIGH w vec = Inr (b0, b1) \<and> \<bar>b0\<bar> \<le> HIGH \<and> \<bar>b1\<bar> \<le> HIGH"
    by (rule viterbi_bits_of_carrier_nonzero [OF assms(1,2)])
next
  show "viterbi_bits_of_carrier HIGH w 0 = Inl DivisionByZero"
    by (rule viterbi_bits_of_carrier_zero)
next
  let ?N = "nb_data_carriers params"
  assume nz: "\<forall>i<?N. vec_buf ! nat (carrier_mapper ! i) \<noteq> 0"
  have "\<exists>bits. CalculateViterbiBits_loop ?N carrier_mapper HIGH w vec_buf 0 bit_buf = Inr bits
       \<and> length bits = 2 * ?N
       \<and> (\<forall>j. 0 \<le> j \<and> j < ?N \<longrightarrow> \<bar>bits ! j\<bar> \<le> HIGH \<and> \<bar>bits ! (j + ?N)\<bar> \<le> HIGH)
       \<and> (\<forall>p. p < 0 \<or> (?N \<le> p \<and> p < 0 + ?N) \<longrightarrow> bits ! p = bit_buf ! p)"
    using nz assms(5) by (intro CalculateViterbiBits_loop_ok [OF assms(1,2,3,4)]) auto
  then obtain bits where o: "CalculateViterbiBits_loop ?N carrier_mapper HIGH w vec_buf 0 bit_buf = Inr bits"
    "length bits = 2 * ?N"
    "\<forall>j. 0 \<le> j \<and> j < ?N \<longrightarrow> \<bar>bits ! j\<bar> \<le> HIGH \<and> \<bar>bits ! (j + ?N)\<bar> \<le> HIGH" by blast
  have "\<forall>p<2 * ?N. \<bar>bits ! p\<bar> \<le> HIGH"
  proof (intro allI impI)
    fix p assume p: "p < 2 * ?N"
    show "\<bar>bits ! p\<bar> \<le> HIGH"
    proof (cases "p < ?N")
      case True
      then show ?thesis using o(3) by simp
    next
      case False
      then have "p - ?N < ?N" "p = (p - ?N) + ?N" using p by simp_all
      then show ?thesis using o(3) by (metis le0)
    qed
  qed
  then show "\<exists>bits. CalculateViterbiBits params carrier_mapper HIGH w vec_buf bit_buf = Inr bits
               \<and> length bits = 2 * ?N \<and> (\<forall>p<2 * ?N. \<bar>bits ! p\<bar> \<le> HIGH)"
    using o(1,2) by (simp add: CalculateViterbiBits_def)
next
  let ?N = "nb_data_carriers params"
  assume "\<exists>i<?N. vec_buf ! nat (carrier_mapper ! i) = 0"
  then obtain z where z: "z < ?N" "vec_buf ! nat (carrier_mapper ! z) = 0" by blast
  show "CalculateViterbiBits params carrier_mapper HIGH w vec_buf bit_buf = Inl DivisionByZero"
    unfolding CalculateViterbiBits_def
    using z assms(5) by (intro CalculateViterbiBits_loop_zero [OF assms(1,2,3,4), where z = z]) auto
qed

theorem CalculateViterbiBits_magnitude_and_zero_witness:
  "(0::int) \<le> 127 \<and> (127::int) < 2 ^ (16 - 1)
   \<and> length [1, 0 :: int] = nb_data_carriers example_params
   \<and> length [0, 0, 0, 0 :: int] = 2 * nb_data_carriers example_params
   \<and> 0 < max \<bar>Re (- \<i>)\<bar> \<bar>Im (- \<i>)\<bar>
   \<and> (\<exists>b0 b1. viterbi_bits_of_carrier 127 16 (- \<i>) = Inr (b0, b1) \<and> \<bar>b0\<bar> \<le> 127 \<and> \<bar>b1\<bar> \<le> 127)
   \<and> viterbi_bits_of_carrier 127 16 0 = Inl DivisionByZero
   \<and> (\<exists>bits. CalculateViterbiBits example_params [1, 0] 127 16 [- \<i>, 3] [0, 0, 0, 0] = Inr bits
        \<and> length bits = 2 * nb_data_carriers example_params)
   \<and> CalculateViterbiBits example_params [1, 0] 127 16 [- \<i>, 0] [0, 0, 0, 0] = Inl DivisionByZero"
proof -
  have h: "(0::int) \<le> 127" "(127::int) < 2 ^ (16 - 1)"
    "length [1, 0 :: int] = nb_data_carriers example_params"
    "length [0, 0, 0, 0 :: int] = 2 * nb_data_carriers example_params"
    by (simp_all add: example_params_def)
  have m: "\<forall>i<nb_data_carriers example_params.
      0 \<le> [1, 0 :: int] ! i \<and> [1, 0 :: int] ! i < int (length [- \<i>, 3 :: complex])"
    "\<forall>i<nb_data_carriers example_params.
      0 \<le> [1, 0 :: int] ! i \<and> [1, 0 :: int] ! i < int (length [- \<i>, 0 :: complex])"
    by (simp_all add: example_params_def less_Suc_eq numeral_2_eq_2)
  have nz: "\<forall>i<nb_data_carriers example_params. [- \<i>, 3 :: complex] ! nat ([1, 0] ! i) \<noteq> 0"
    by (simp add: example_params_def less_Suc_eq numeral_2_eq_2)
  have z: "\<exists>i<nb_data_carriers example_params. [- \<i>, 0 :: complex] ! nat ([1, 0] ! i) = 0"
    by (rule exI [of _ 0]) (simp add: example_params_def)
  have a: "0 < max \<bar>Re (- \<i>)\<bar> \<bar>Im (- \<i>)\<bar>" by simp
  show ?thesis
    using h a nz z
      CalculateViterbiBits_magnitude_and_zero [OF h(1,2,3) m(1) h(4), of "- \<i>"]
      CalculateViterbiBits_magnitude_and_zero [OF h(1,2,3) m(2) h(4), of "- \<i>"]
    by blast
qed

subsection \<open>Evaluation on the concrete inputs\<close>

lemma upt4: "[0..<4] = [0, 1, 2, 3]"
  by (simp add: upt_rec)

lemma ex_impulse: "fine_time_impulse_response example_params example_plans example_state
   = Inr [0, 0, 0, 0]"
  by (simp add: fine_time_impulse_response_def example_params_def example_plans_def
      example_state_def subspan_def ApplyPLL_def CalculateFFT_def CalculateIFFT_def Let_def upt4)

lemma ex_peak: "impulse_peak example_params example_cfg [0, 0, 0, 0] = Inr (0, 0, 0)"
  by (simp add: impulse_peak_def impulse_peak_step_def example_params_def example_cfg_def
      span_read_def Let_def upt4)

lemma ex_coarse: "coarse_freq_peak example_params example_cfg example_plans example_state
   = Inr ([0, 0, 0, 0], 0, - 2)"
  by (simp add: coarse_freq_peak_def coarse_frequency_response_def example_params_def
      example_plans_def example_cfg_def
      example_state_def subspan_def CalculateRelativePhase_def CalculateMagnitude_def
      CalculateFFT_def CalculateIFFT_def Let_def upt4 float_to_int_def
      coarse_peak_search_def clamp_carrier_offset_def span_read_def
      coarse_peak_search_loop.simps)

subsection \<open>Reset on an insufficient impulse peak\<close>

text \<open>
  C7. When the weighted peak of the impulse response is less than
  \<open>impulse_peak_threshold_db\<close> above its mean, \<^verbatim>\<open>RunFineTimeSync\<close> returns normally having
  read no sample, and the state it leaves is that of \<^verbatim>\<open>Reset\<close>: the FSM in
  \<open>FINDING_NULL_POWER_DIP\<close>, the correlation buffer of length 0, \<open>total_frames_desync\<close>
  one more, \<open>is_found_coarse_freq_offset\<close> false and the three offsets zero.
\<close>

theorem RunFineTimeSync_insufficient_peak:
  assumes "fine_time_impulse_response params plans st = Inr impulse"
    and "impulse_peak params cfg impulse = Inr (impulse_avg, impulse_max_value, impulse_max_index)"
    and "impulse_max_value - impulse_avg < sync_impulse_peak_threshold_db cfg"
  shows "\<exists>st'. RunFineTimeSync params cfg plans st = Inr (0, st')
     \<and> st' = Reset (st\<lparr>correlation_impulse_response := impulse\<rparr>)
     \<and> state st' = FINDING_NULL_POWER_DIP
     \<and> buf_length (correlation_time_buffer st') = 0
     \<and> total_frames_desync st' = total_frames_desync st + 1
     \<and> \<not> is_found_coarse_freq_offset st'
     \<and> freq_coarse_offset st' = 0 \<and> freq_fine_offset st' = 0 \<and> fine_time_offset st' = 0"
  using assms by (simp add: RunFineTimeSync_def Reset_def SetLength_def Let_def)

theorem RunFineTimeSync_insufficient_peak_witness:
  "fine_time_impulse_response example_params example_plans example_state = Inr [0, 0, 0, 0]
   \<and> impulse_peak example_params example_cfg [0, 0, 0, 0] = Inr (0, 0, 0)
   \<and> (0::real) - 0 < sync_impulse_peak_threshold_db example_cfg
   \<and> (\<exists>st'. RunFineTimeSync example_params example_cfg example_plans example_state = Inr (0, st')
        \<and> state st' = FINDING_NULL_POWER_DIP
        \<and> buf_length (correlation_time_buffer st') = 0
        \<and> total_frames_desync st' = total_frames_desync example_state + 1
        \<and> \<not> is_found_coarse_freq_offset st'
        \<and> freq_coarse_offset st' = 0 \<and> freq_fine_offset st' = 0 \<and> fine_time_offset st' = 0)"
proof -
  have t: "(0::real) - 0 < sync_impulse_peak_threshold_db example_cfg"
    by (simp add: example_cfg_def)
  show ?thesis
    using ex_impulse ex_peak t RunFineTimeSync_insufficient_peak [OF ex_impulse ex_peak t]
    by blast
qed

subsection \<open>The peak search stays inside the frequency response\<close>

lemma clamp_carrier_offset_range:
  "0 \<le> clamp_carrier_offset params raw_offset
   \<and> clamp_carrier_offset params raw_offset \<le> int (nb_fft params div 2)"
  by (simp add: clamp_carrier_offset_def Let_def)

lemma coarse_peak_search_loop_in_bounds:
  assumes "0 \<le> mco" "mco \<le> M" "2 * M \<le> N_fft" "int (length response) = N_fft"
  shows "- mco \<le> i \<Longrightarrow> i \<le> mco + 1 \<Longrightarrow> - mco \<le> max_index \<Longrightarrow> max_index \<le> mco \<Longrightarrow>
     \<exists>v idx. coarse_peak_search_loop response N_fft M mco i max_value max_index = Inr (v, idx)
       \<and> - mco \<le> idx \<and> idx \<le> mco"
proof (induction "nat (mco + 1 - i)" arbitrary: i max_value max_index)
  case 0
  then have "\<not> i \<le> mco" by simp
  then show ?case using 0
    by (subst coarse_peak_search_loop.simps) simp
next
  case (Suc m)
  then have im: "i \<le> mco" by simp
  have m: "m = nat (mco + 1 - (i + 1))" using Suc(2) by simp
  have step: "\<exists>v idx. coarse_peak_search_loop response N_fft M mco (i + 1) mv mi = Inr (v, idx)
       \<and> - mco \<le> idx \<and> idx \<le> mco" if "- mco \<le> mi" "mi \<le> mco" for mv mi
    using Suc.prems im that by (intro Suc.hyps(1) [OF m]) auto
  show ?case
  proof (cases "i + M = N_fft")
    case True
    then show ?thesis
      using im step [OF Suc.prems(3,4), of max_value]
      by (subst coarse_peak_search_loop.simps) (simp add: Let_def)
  next
    case False
    have rng: "0 \<le> i + M" "i + M < int (length response)"
      using assms Suc.prems im False by auto
    then have rd: "span_read response (i + M) = Inr (response ! nat (i + M))"
      by (simp add: span_read_def)
    show ?thesis
      using im False rd step [OF Suc.prems(3,4), of max_value]
        step [of i "response ! nat (i + M)"] Suc.prems(1)
      by (subst coarse_peak_search_loop.simps) (simp add: Let_def)
  qed
qed

lemma coarse_peak_search_in_bounds:
  assumes "0 < nb_fft params" "length response = nb_fft params"
  shows "\<exists>v idx. coarse_peak_search params raw_offset response = Inr (v, idx)
     \<and> - clamp_carrier_offset params raw_offset \<le> idx
     \<and> idx \<le> clamp_carrier_offset params raw_offset"
proof -
  define mco where "mco = clamp_carrier_offset params raw_offset"
  define M where "M = int (nb_fft params div 2)"
  have mco: "0 \<le> mco" "mco \<le> M"
    using clamp_carrier_offset_range [of params raw_offset] by (simp_all add: mco_def M_def)
  have M2: "2 * M \<le> int (nb_fft params)" by (simp add: M_def)
  have "M < int (nb_fft params)" using assms(1) by (simp add: M_def)
  then have rd: "span_read response (- mco + M) = Inr (response ! nat (- mco + M))"
    using mco assms(2) by (simp add: span_read_def)
  have "\<exists>v idx. coarse_peak_search_loop response (int (nb_fft params)) M mco (- mco)
           (response ! nat (- mco + M)) (- mco) = Inr (v, idx) \<and> - mco \<le> idx \<and> idx \<le> mco"
    using mco assms(2) by (intro coarse_peak_search_loop_in_bounds [OF mco M2]) auto
  then show ?thesis
    unfolding coarse_peak_search_def Let_def mco_def [symmetric] M_def [symmetric]
    using rd by simp
qed

lemma length_CalculateMagnitude [simp]: "length (CalculateMagnitude params fft_buf) = nb_fft params"
  by (simp add: CalculateMagnitude_def Let_def)

lemma coarse_frequency_response_length:
  "coarse_frequency_response params plans st = Inr response \<Longrightarrow> length response = nb_fft params"
  by (auto simp: coarse_frequency_response_def bindE_def Let_def split: sum.splits)

text \<open>
  C9. With \<open>0 < nb_fft\<close>: whatever \<^verbatim>\<open>int\<close> the conversion of
  \<open>max_coarse_freq_correction_norm * nb_fft\<close> produced, the half-width is clamped into
  \<open>[0, nb_fft / 2]\<close>, and on a frequency response of \<open>nb_fft\<close> values the search returns
  without an access out of bounds (every read, the first one included, is at an index in
  \<open>[0, nb_fft)\<close>), with the winning offset within the half-width. The response that
  \<^verbatim>\<open>RunCoarseFreqSync\<close> computes has \<open>nb_fft\<close> values, so for every configuration the search
  on it succeeds.
\<close>

theorem coarse_peak_search_never_out_of_bounds:
  assumes "0 < nb_fft params"
  shows "0 \<le> clamp_carrier_offset params raw_offset
     \<and> clamp_carrier_offset params raw_offset \<le> int (nb_fft params div 2)
     \<and> (length response = nb_fft params \<longrightarrow>
          (\<exists>v idx. coarse_peak_search params raw_offset response = Inr (v, idx)
             \<and> - clamp_carrier_offset params raw_offset \<le> idx
             \<and> idx \<le> clamp_carrier_offset params raw_offset))
     \<and> (coarse_frequency_response params plans st = Inr response \<longrightarrow>
          (\<exists>v idx. coarse_freq_peak params cfg plans st = Inr (response, v, idx)))"
proof (intro conjI impI)
  show "0 \<le> clamp_carrier_offset params raw_offset"
    and "clamp_carrier_offset params raw_offset \<le> int (nb_fft params div 2)"
    using clamp_carrier_offset_range [of params raw_offset] by simp_all
next
  assume "length response = nb_fft params"
  then show "\<exists>v idx. coarse_peak_search params raw_offset response = Inr (v, idx)
             \<and> - clamp_carrier_offset params raw_offset \<le> idx
             \<and> idx \<le> clamp_carrier_offset params raw_offset"
    by (rule coarse_peak_search_in_bounds [OF assms])
next
  assume r: "coarse_frequency_response params plans st = Inr response"
  then have "length response = nb_fft params" by (rule coarse_frequency_response_length)
  from coarse_peak_search_in_bounds [OF assms this]
  obtain v idx where "coarse_peak_search params
      (float_to_int (sync_max_coarse_freq_correction_norm cfg * real (nb_fft params))) response
      = Inr (v, idx)" by blast
  then show "\<exists>v idx. coarse_freq_peak params cfg plans st = Inr (response, v, idx)"
    using r by (simp add: coarse_freq_peak_def)
qed

theorem coarse_peak_search_never_out_of_bounds_witness:
  "0 < nb_fft example_params
   \<and> length [0, 0, 0, 0 :: real] = nb_fft example_params
   \<and> 0 \<le> clamp_carrier_offset example_params 1000000
   \<and> clamp_carrier_offset example_params 1000000 \<le> int (nb_fft example_params div 2)
   \<and> (\<exists>v idx. coarse_peak_search example_params 1000000 [0, 0, 0, 0] = Inr (v, idx))
   \<and> (\<exists>v idx. coarse_peak_search example_params (- 1000000) [0, 0, 0, 0] = Inr (v, idx))
   \<and> coarse_frequency_response example_params example_plans example_state = Inr [0, 0, 0, 0]
   \<and> (\<exists>v idx. coarse_freq_peak example_params example_cfg example_plans example_state
         = Inr ([0, 0, 0, 0], v, idx))"
proof -
  have h: "0 < nb_fft example_params" and l: "length [0, 0, 0, 0 :: real] = nb_fft example_params"
    by (simp_all add: example_params_def)
  have r: "coarse_frequency_response example_params example_plans example_state = Inr [0, 0, 0, 0]"
    using ex_coarse by (auto simp: coarse_freq_peak_def bindE_def split: sum.splits)
  show ?thesis
    using h l r
      coarse_peak_search_never_out_of_bounds [OF h, where raw_offset = 1000000
        and response = "[0, 0, 0, 0]" and plans = example_plans and st = example_state
        and cfg = example_cfg]
      coarse_peak_search_never_out_of_bounds [OF h, where raw_offset = "- 1000000"
        and response = "[0, 0, 0, 0]"]
    by blast
qed

subsection \<open>The coarse frequency offset after a fast update\<close>

lemma coarse_freq_peak_index:
  assumes "0 < nb_fft params"
    and "coarse_freq_peak params cfg plans st = Inr (response, max_value, max_index)"
  shows "\<bar>max_index\<bar> \<le> int (nb_fft params div 2)"
proof -
  define raw where
    "raw = float_to_int (sync_max_coarse_freq_correction_norm cfg * real (nb_fft params))"
  from assms(2) obtain r where r: "coarse_frequency_response params plans st = Inr r"
    by (cases "coarse_frequency_response params plans st") (simp_all add: coarse_freq_peak_def)
  then have s: "coarse_peak_search params raw r = Inr (max_value, max_index)"
    using assms(2)
    by (cases "coarse_peak_search params raw r")
      (auto simp: coarse_freq_peak_def raw_def Let_def)
  have "length r = nb_fft params" using r by (rule coarse_frequency_response_length)
  from coarse_peak_search_in_bounds [OF assms(1) this, of raw] s
  have "- clamp_carrier_offset params raw \<le> max_index"
    "max_index \<le> clamp_carrier_offset params raw" by auto
  then show ?thesis using clamp_carrier_offset_range [of params raw] by linarith
qed

lemma float_of_size_pow2: "k \<le> 24 \<Longrightarrow> float_of_size (2 ^ k) = 2 ^ k"
proof -
  assume k: "k \<le> 24"
  have "(2::int) ^ k \<le> 2 ^ 24" using k by (intro power_increasing) simp_all
  then show ?thesis using binary32_round_of_int [of "2 ^ k"]
    by (simp add: float_of_size_def)
qed

lemma predicted_exact:
  assumes "k \<le> 24" "\<bar>max_index\<bar> \<le> 2 ^ 24"
  shows "float_div (- float_of_int max_index) (float_of_size (2 ^ k))
           = - real_of_int max_index / 2 ^ k"
proof -
  have i: "float_of_int max_index = real_of_int max_index"
    using assms(2) by (simp add: float_of_int_def binary32_round_of_int)
  have "binary32_round (real_of_int (- max_index) * 2 ^ 0 / 2 ^ k)
      = real_of_int (- max_index) * 2 ^ 0 / 2 ^ k"
    using assms by (intro binary32_round_exact) simp_all
  then show ?thesis
    using assms(1) by (simp add: float_div_def i float_of_size_pow2)
qed

text \<open>The two roundings of a fast update.\<close>

lemma fast_update_value:
  fixes old predicted :: real
  defines "new \<equiv> float_add old (float_mul 1 (float_sub predicted old))"
  assumes p: "binary32_round predicted = predicted"
  shows "new = float_add old (float_sub predicted old)"
    and "float_sub predicted old = predicted - old \<Longrightarrow> new = predicted"
    and "old = 0 \<Longrightarrow> new = predicted"
    and "\<bar>new - predicted\<bar> \<le> (\<bar>predicted\<bar> + \<bar>predicted - old\<bar>) / 2 ^ 23 + 1 / 2 ^ 148"
proof -
  show n: "new = float_add old (float_sub predicted old)"
    by (simp add: new_def float_mul_def float_sub_def)
  show e: "new = predicted" if "float_sub predicted old = predicted - old"
    using that p by (simp add: n float_add_def)
  show "new = predicted" if "old = 0"
    using that p by (intro e) (simp add: float_sub_def)
  define d where "d = predicted - old"
  define e where "e = float_sub predicted old"
  have 1: "\<bar>e - d\<bar> \<le> \<bar>d\<bar> / 2 ^ 24 + 1 / 2 ^ 150"
    unfolding e_def d_def float_sub_def by (rule binary32_round_err)
  have 2: "\<bar>new - (old + e)\<bar> \<le> \<bar>old + e\<bar> / 2 ^ 24 + 1 / 2 ^ 150"
    unfolding n e_def [symmetric] float_add_def by (rule binary32_round_err)
  have 3: "old + e = predicted + (e - d)" by (simp add: d_def)
  have 4: "\<bar>old + e\<bar> \<le> \<bar>predicted\<bar> + \<bar>e - d\<bar>" unfolding 3 by (rule abs_triangle_ineq)
  have 5: "\<bar>new - predicted\<bar> \<le> \<bar>new - (old + e)\<bar> + \<bar>e - d\<bar>"
    using 3 by linarith
  define A B C D P where "A = \<bar>e - d\<bar>" and "B = \<bar>new - (old + e)\<bar>" and "C = \<bar>old + e\<bar>"
    and "D = \<bar>d\<bar>" and "P = \<bar>predicted\<bar>"
  have nn: "0 \<le> D" "0 \<le> P" by (simp_all add: D_def P_def)
  have a: "A \<le> D / 2 ^ 24 + 1 / 2 ^ 150" using 1 by (simp add: A_def D_def)
  have b: "B \<le> C / 2 ^ 24 + 1 / 2 ^ 150" using 2 by (simp add: B_def C_def)
  have c: "C \<le> P + A" using 4 by (simp add: C_def P_def A_def)
  have "B + A \<le> (P + D) / 2 ^ 23 + 1 / 2 ^ 148"
    by (rule rounding_errors_add [OF nn a b c])
  then show "\<bar>new - predicted\<bar> \<le> (\<bar>predicted\<bar> + \<bar>predicted - old\<bar>) / 2 ^ 23 + 1 / 2 ^ 148"
    using 5 unfolding A_def B_def P_def D_def d_def by linarith
qed

lemma RunCoarseFreqSync_offset:
  assumes "sync_is_coarse_freq_correction cfg"
    and "coarse_freq_peak params cfg plans st = Inr (response, max_value, max_index)"
    and "predicted = float_div (- float_of_int max_index) (float_of_size (nb_fft params))"
    and "error = float_sub predicted (freq_coarse_offset st)"
  shows "\<exists>st'. RunCoarseFreqSync params cfg plans st = Inr (0, st')
     \<and> freq_coarse_offset st' =
         float_add (freq_coarse_offset st)
           (float_mul
              (if \<bar>error\<bar> > float_div 1.5 (float_of_size (nb_fft params))
                  \<or> \<not> is_found_coarse_freq_offset st
               then 1 else sync_coarse_freq_slow_beta cfg) error)
     \<and> is_found_coarse_freq_offset st'
     \<and> state st' = RUNNING_FINE_TIME_SYNC"
  using assms
  by (simp add: RunCoarseFreqSync_def Let_def UpdateFineFrequencyOffset_def)

text \<open>
  C8, as the code has it. When coarse correction is enabled and the update is a fast one
  (the error exceeds \<open>1.5 / nb_fft\<close> in magnitude, or no coarse offset had been found),
  \<open>freq_coarse_offset\<close> becomes \<open>old + (predicted - old)\<close> computed in \<^verbatim>\<open>float\<close>, each of the
  two operations rounded, where \<open>predicted\<close> is \<open>-i* / nb_fft\<close> as a \<^verbatim>\<open>float\<close>. The result is
  \<open>predicted\<close> itself when the difference \<open>predicted - old\<close> is a value of \<^verbatim>\<open>float\<close>, in
  particular when \<open>old\<close> is zero (the first estimate after construction or \<^verbatim>\<open>Reset\<close>);
  in every case it is within \<open>(\<bar>predicted\<bar> + \<bar>predicted - old\<bar>) / 2 ^ 23 + 2 ^ -148\<close> of
  \<open>predicted\<close>. And \<open>predicted\<close> is exactly \<open>-i* / nb_fft\<close>, an integer multiple of
  \<open>1 / nb_fft\<close>, when \<open>nb_fft\<close> is a power of two up to \<open>2 ^ 24\<close>.
\<close>

theorem RunCoarseFreqSync_fast_update:
  assumes "sync_is_coarse_freq_correction cfg"
    and "coarse_freq_peak params cfg plans st = Inr (response, max_value, max_index)"
    and "predicted = float_div (- float_of_int max_index) (float_of_size (nb_fft params))"
    and "\<bar>float_sub predicted (freq_coarse_offset st)\<bar>
            > float_div 1.5 (float_of_size (nb_fft params))
         \<or> \<not> is_found_coarse_freq_offset st"
  shows "\<exists>st'. RunCoarseFreqSync params cfg plans st = Inr (0, st')
     \<and> freq_coarse_offset st'
         = float_add (freq_coarse_offset st) (float_sub predicted (freq_coarse_offset st))
     \<and> (float_sub predicted (freq_coarse_offset st) = predicted - freq_coarse_offset st \<longrightarrow>
          freq_coarse_offset st' = predicted)
     \<and> (freq_coarse_offset st = 0 \<longrightarrow> freq_coarse_offset st' = predicted)
     \<and> \<bar>freq_coarse_offset st' - predicted\<bar>
         \<le> (\<bar>predicted\<bar> + \<bar>predicted - freq_coarse_offset st\<bar>) / 2 ^ 23 + 1 / 2 ^ 148
     \<and> (nb_fft params = 2 ^ k \<and> k \<le> 24 \<longrightarrow>
          predicted = - real_of_int max_index / real (nb_fft params))
     \<and> is_found_coarse_freq_offset st'
     \<and> state st' = RUNNING_FINE_TIME_SYNC"
proof -
  from RunCoarseFreqSync_offset [OF assms(1,2,3) refl]
  obtain st' where st': "RunCoarseFreqSync params cfg plans st = Inr (0, st')"
    "freq_coarse_offset st' = float_add (freq_coarse_offset st)
       (float_mul 1 (float_sub predicted (freq_coarse_offset st)))"
    "is_found_coarse_freq_offset st'" "state st' = RUNNING_FINE_TIME_SYNC"
    using assms(4) by auto
  have p: "binary32_round predicted = predicted"
    by (simp add: assms(3) float_div_def)
  note v = fast_update_value [OF p, of "freq_coarse_offset st", folded st'(2)]
  have x: "predicted = - real_of_int max_index / real (nb_fft params)"
    if k: "nb_fft params = 2 ^ k \<and> k \<le> 24"
  proof -
    have "0 < nb_fft params" using k by simp
    then have "\<bar>max_index\<bar> \<le> int (nb_fft params div 2)"
      using assms(2) by (rule coarse_freq_peak_index)
    also have "\<dots> \<le> int (nb_fft params)" by simp
    also have "\<dots> \<le> 2 ^ 24"
    proof -
      have "(2::int) ^ k \<le> 2 ^ 24" using k by (intro power_increasing) simp_all
      then show ?thesis using k by simp
    qed
    finally show ?thesis using k predicted_exact [of k max_index] by (simp add: assms(3))
  qed
  show ?thesis
    using st'(1,3,4) v x by blast
qed

lemma ex_predicted:
  "float_div (- float_of_int (- 2)) (float_of_size (nb_fft example_params)) = 1 / 2"
  using predicted_exact [of 2 "- 2"] by (simp add: example_params_def)

lemma ex_locked_coarse:
  "coarse_freq_peak example_params example_cfg example_plans example_locked_state
   = Inr ([0, 0, 0, 0], 0, - 2)"
  by (simp add: coarse_freq_peak_def coarse_frequency_response_def example_params_def
      example_plans_def example_cfg_def example_locked_state_def
      example_state_def subspan_def CalculateRelativePhase_def CalculateMagnitude_def
      CalculateFFT_def CalculateIFFT_def Let_def upt4 float_to_int_def
      coarse_peak_search_def clamp_carrier_offset_def span_read_def
      coarse_peak_search_loop.simps)

lemma ex_locked_error:
  "float_sub (1 / 2) (- (13589545 / 2 ^ 25)) = 15183380 / 2 ^ 24"
  unfolding float_sub_def
  by (subst binary32_round_normal [where j = 24]) (simp_all add: round_half_even_def)

lemma ex_locked_threshold: "float_div 1.5 (float_of_size (nb_fft example_params)) = 3 / 8"
  using binary32_round_exact [of 3 3 0] binary32_round_of_int [of 4]
  by (simp add: float_div_def float_of_size_def example_params_def)

lemma ex_locked_delta: "float_mul 1 (15183380 / 2 ^ 24) = 15183380 / 2 ^ 24"
  using binary32_round_exact [of 15183380 24 0] by (simp add: float_mul_def)

lemma ex_locked_sum:
  "float_add (- (13589545 / 2 ^ 25)) (15183380 / 2 ^ 24) = 16777215 / 2 ^ 25"
  using binary32_round_exact [of 16777215 25 0] by (simp add: float_add_def)

lemma ex_locked_offset: "freq_coarse_offset example_locked_state = - (13589545 / 2 ^ 25)"
  by (simp add: example_locked_state_def)

lemma ex_locked_fast:
  "float_div 1.5 (float_of_size (nb_fft example_params))
     < \<bar>float_sub (1 / 2) (freq_coarse_offset example_locked_state)\<bar>"
  unfolding ex_locked_offset ex_locked_error ex_locked_threshold by simp

theorem RunCoarseFreqSync_fast_update_witness:
  "sync_is_coarse_freq_correction example_cfg
   \<and> coarse_freq_peak example_params example_cfg example_plans example_state
       = Inr ([0, 0, 0, 0], 0, - 2)
   \<and> 1 / 2 = float_div (- float_of_int (- 2)) (float_of_size (nb_fft example_params))
   \<and> \<not> is_found_coarse_freq_offset example_state
   \<and> freq_coarse_offset example_state = 0
   \<and> float_sub (1 / 2) (freq_coarse_offset example_state)
       = 1 / 2 - freq_coarse_offset example_state
   \<and> nb_fft example_params = 2 ^ 2 \<and> (2::nat) \<le> 24
   \<and> (\<exists>st'. RunCoarseFreqSync example_params example_cfg example_plans example_state = Inr (0, st')
        \<and> freq_coarse_offset st' = 1 / 2
        \<and> freq_coarse_offset st' = - real_of_int (- 2) / real (nb_fft example_params))
   \<and> coarse_freq_peak example_params example_cfg example_plans example_locked_state
       = Inr ([0, 0, 0, 0], 0, - 2)
   \<and> is_found_coarse_freq_offset example_locked_state
   \<and> float_div 1.5 (float_of_size (nb_fft example_params))
       < \<bar>float_sub (1 / 2) (freq_coarse_offset example_locked_state)\<bar>
   \<and> (\<exists>st'. RunCoarseFreqSync example_params example_cfg example_plans example_locked_state
          = Inr (0, st')
        \<and> freq_coarse_offset st'
            = float_add (freq_coarse_offset example_locked_state)
                (float_sub (1 / 2) (freq_coarse_offset example_locked_state))
        \<and> \<bar>freq_coarse_offset st' - 1 / 2\<bar>
            \<le> (\<bar>1 / 2\<bar> + \<bar>1 / 2 - freq_coarse_offset example_locked_state\<bar>) / 2 ^ 23
                + 1 / 2 ^ 148)"
proof -
  have e: "sync_is_coarse_freq_correction example_cfg" by (simp add: example_cfg_def)
  have n: "\<not> is_found_coarse_freq_offset example_state" by (simp add: example_state_def)
  have z: "freq_coarse_offset example_state = 0" by (simp add: example_state_def)
  have f: "\<bar>float_sub (1 / 2) (freq_coarse_offset example_state)\<bar>
            > float_div 1.5 (float_of_size (nb_fft example_params))
         \<or> \<not> is_found_coarse_freq_offset example_state"
    using n by simp
  have s: "float_sub (1 / 2) (freq_coarse_offset example_state)
       = 1 / 2 - freq_coarse_offset example_state"
    using binary32_round_exact [of 1 1 0] by (simp add: z float_sub_def)
  have k: "nb_fft example_params = 2 ^ 2" "(2::nat) \<le> 24"
    by (simp_all add: example_params_def)
  from RunCoarseFreqSync_fast_update [OF e ex_coarse ex_predicted [symmetric] f, of 2] s k
  obtain st' where st': "RunCoarseFreqSync example_params example_cfg example_plans example_state
       = Inr (0, st')"
    "freq_coarse_offset st' = 1 / 2"
    "1 / 2 = - real_of_int (- 2) / real (nb_fft example_params)"
    by blast
  have m: "freq_coarse_offset st' = - real_of_int (- 2) / real (nb_fft example_params)"
    using st'(2,3) by (rule trans)
  have l: "is_found_coarse_freq_offset example_locked_state"
    by (simp add: example_locked_state_def)
  have g: "\<bar>float_sub (1 / 2) (freq_coarse_offset example_locked_state)\<bar>
            > float_div 1.5 (float_of_size (nb_fft example_params))
         \<or> \<not> is_found_coarse_freq_offset example_locked_state"
    using ex_locked_fast by simp
  from RunCoarseFreqSync_fast_update [OF e ex_locked_coarse ex_predicted [symmetric] g, of 2]
  obtain st'' where st'': "RunCoarseFreqSync example_params example_cfg example_plans
       example_locked_state = Inr (0, st'')"
    "freq_coarse_offset st''
       = float_add (freq_coarse_offset example_locked_state)
           (float_sub (1 / 2) (freq_coarse_offset example_locked_state))"
    "\<bar>freq_coarse_offset st'' - 1 / 2\<bar>
       \<le> (\<bar>1 / 2\<bar> + \<bar>1 / 2 - freq_coarse_offset example_locked_state\<bar>) / 2 ^ 23
           + 1 / 2 ^ 148"
    by blast
  show ?thesis
    using e n z s k ex_coarse ex_predicted [symmetric] st'(1,2) m
      ex_locked_coarse l ex_locked_fast st'' by blast
qed

text \<open>A fast update from a coarse offset that had been found: \<open>old = -13589545 / 2 ^ 25\<close>
  (a value of binary32), four FFT bins and the winning offset \<open>i* = -2\<close>, so
  \<open>predicted = 1/2\<close>. The error \<open>1/2 - old = 30366761 / 2 ^ 25\<close> needs 25 bits and is rounded
  to \<open>15183380 / 2 ^ 24\<close>; it exceeds the threshold \<open>3/8\<close>. The sum
  \<open>old + error = 16777215 / 2 ^ 25\<close> is the value stored: it is not \<open>1/2\<close>, and not an integer
  multiple of \<open>1/4\<close>.\<close>

theorem RunCoarseFreqSync_fast_update_counterexample:
  "is_found_coarse_freq_offset example_locked_state
   \<and> freq_coarse_offset example_locked_state = - (13589545 / 2 ^ 25)
   \<and> binary32_round (freq_coarse_offset example_locked_state)
       = freq_coarse_offset example_locked_state
   \<and> coarse_freq_peak example_params example_cfg example_plans example_locked_state
       = Inr ([0, 0, 0, 0], 0, - 2)
   \<and> float_div 1.5 (float_of_size (nb_fft example_params))
       < \<bar>float_sub (float_div (- float_of_int (- 2)) (float_of_size (nb_fft example_params)))
           (freq_coarse_offset example_locked_state)\<bar>
   \<and> (\<exists>st'. RunCoarseFreqSync example_params example_cfg example_plans example_locked_state
          = Inr (0, st')
        \<and> freq_coarse_offset st' = 16777215 / 2 ^ 25
        \<and> freq_coarse_offset st' \<noteq> - real_of_int (- 2) / real (nb_fft example_params)
        \<and> (\<forall>i::int. freq_coarse_offset st' \<noteq> real_of_int i * (1 / real (nb_fft example_params))))"
proof -
  have e: "sync_is_coarse_freq_correction example_cfg" by (simp add: example_cfg_def)
  have f: "is_found_coarse_freq_offset example_locked_state"
    by (simp add: example_locked_state_def)
  have o: "freq_coarse_offset example_locked_state = - (13589545 / 2 ^ 25)"
    by (simp add: example_locked_state_def)
  have r: "binary32_round (freq_coarse_offset example_locked_state)
       = freq_coarse_offset example_locked_state"
    unfolding o using binary32_round_exact [of "- 13589545" 25 0] by simp
  have t: "float_div 1.5 (float_of_size (nb_fft example_params))
       < \<bar>float_sub (float_div (- float_of_int (- 2)) (float_of_size (nb_fft example_params)))
           (freq_coarse_offset example_locked_state)\<bar>"
    unfolding o ex_predicted ex_locked_error ex_locked_threshold by simp
  from RunCoarseFreqSync_offset [OF e ex_locked_coarse refl refl]
  obtain st' where run: "RunCoarseFreqSync example_params example_cfg example_plans
       example_locked_state = Inr (0, st')"
    and v: "freq_coarse_offset st' =
         float_add (freq_coarse_offset example_locked_state)
           (float_mul
              (if \<bar>float_sub (float_div (- float_of_int (- 2))
                         (float_of_size (nb_fft example_params)))
                       (freq_coarse_offset example_locked_state)\<bar>
                    > float_div 1.5 (float_of_size (nb_fft example_params))
                  \<or> \<not> is_found_coarse_freq_offset example_locked_state
               then 1 else sync_coarse_freq_slow_beta example_cfg)
              (float_sub (float_div (- float_of_int (- 2))
                  (float_of_size (nb_fft example_params)))
                (freq_coarse_offset example_locked_state)))"
    by blast
  have c: "(\<bar>float_sub (float_div (- float_of_int (- 2))
                         (float_of_size (nb_fft example_params)))
                       (freq_coarse_offset example_locked_state)\<bar>
                    > float_div 1.5 (float_of_size (nb_fft example_params))
                  \<or> \<not> is_found_coarse_freq_offset example_locked_state) = True"
    using t by simp
  have st': "RunCoarseFreqSync example_params example_cfg example_plans
       example_locked_state = Inr (0, st')"
    "freq_coarse_offset st' = 16777215 / 2 ^ 25"
    using run apply simp
    unfolding v c if_True
    unfolding o ex_predicted ex_locked_error ex_locked_delta ex_locked_sum
    apply (rule refl)
    done
  have ne: "freq_coarse_offset st' \<noteq> - real_of_int (- 2) / real (nb_fft example_params)"
    by (simp add: st'(2) example_params_def)
  have nm: "freq_coarse_offset st' \<noteq> real_of_int i * (1 / real (nb_fft example_params))" for i
  proof
    assume "freq_coarse_offset st' = real_of_int i * (1 / real (nb_fft example_params))"
    then have "real_of_int (i * 8388608) = real_of_int 16777215"
      by (simp add: st'(2) example_params_def)
    then have "i * 8388608 = 16777215" by (simp only: of_int_eq_iff)
    moreover have "even (i * 8388608)" by simp
    ultimately have "even (16777215 :: int)" by (simp only:)
    then show False by simp
  qed
  show ?thesis using f o r ex_locked_coarse t st'(1,2) ne nm by blast
qed

subsection \<open>Process consumes the whole batch\<close>

lemma UpdateSignalAverage_loop_returns:
  assumes "0 < L"
  shows "\<exists>a. UpdateSignalAverage_loop block K M L beta i average = Some a"
proof (induction "M - i" arbitrary: i average rule: less_induct)
  case less
  show ?case
  proof (cases "i < M")
    case False
    then show ?thesis by (subst UpdateSignalAverage_loop.simps) simp
  next
    case True
    then have "M - (i + L) < M - i" using assms by simp
    from less [OF this] show ?thesis using True
      by (subst UpdateSignalAverage_loop.simps) (simp add: Let_def)
  qed
qed

lemma UpdateSignalAverage_returns:
  assumes "1 \<le> signal_l1_nb_samples cfg" "1 \<le> signal_l1_nb_decimate cfg"
  shows "\<exists>a. UpdateSignalAverage cfg block st = Some (st\<lparr>signal_l1_average := a\<rparr>)"
proof (cases "length block < signal_l1_nb_samples cfg")
  case True
  then have "UpdateSignalAverage cfg block st = Some (st\<lparr>signal_l1_average := signal_l1_average st\<rparr>)"
    by (simp add: UpdateSignalAverage_def Let_def)
  then show ?thesis by blast
next
  case False
  have "0 < signal_l1_nb_samples cfg * signal_l1_nb_decimate cfg" using assms by simp
  from UpdateSignalAverage_loop_returns [OF this]
  show ?thesis using False by (fastforce simp: UpdateSignalAverage_def Let_def)
qed


lemma FindNullPowerDip_loop_returns:
  assumes "1 \<le> K" "M = N - K"
  shows "0 \<le> i \<Longrightarrow> 1 \<le> nb_read \<Longrightarrow> nb_read \<le> N \<Longrightarrow>
    \<exists>sf ef n. FindNullPowerDip_loop buf K M t0 t1 i start_found end_found nb_read = Some (sf, ef, n)
       \<and> 1 \<le> n \<and> n \<le> N"
proof (induction "nat (M - i)" arbitrary: i start_found rule: less_induct)
  case less
  show ?case
  proof (cases "i < M")
    case False
    then show ?thesis using less.prems
      by (subst FindNullPowerDip_loop.simps) simp
  next
    case True
    then have d: "nat (M - (i + K)) < nat (M - i)" using assms by simp
    have i0: "0 \<le> i + K" using less.prems assms by simp
    have b: "1 \<le> i + K" "i + K \<le> N" using True assms less.prems by simp_all
    show ?thesis
      using True b less.hyps [OF d i0 less.prems(2,3), of start_found]
        less.hyps [OF d i0 less.prems(2,3), of True]
      by (subst FindNullPowerDip_loop.simps) (auto simp: Let_def)
  qed
qed



lemma ConsumeBuffer_props:
  assumes "buf_length b \<le> Capacity b" "ConsumeBuffer b src = (n, b')"
  shows "n = min (Capacity b - buf_length b) (length src)"
    and "Capacity b' = Capacity b"
    and "buf_length b' = buf_length b + n"
proof -
  show n: "n = min (Capacity b - buf_length b) (length src)"
    and "buf_length b' = buf_length b + n"
    using assms(2) by (auto simp: ConsumeBuffer_def Let_def)
  have "buf_data b' = subspan_store (buf_data b) (buf_length b) (take n src)"
    using assms(2) by (auto simp: ConsumeBuffer_def Let_def)
  moreover have "buf_length b + length (take n src) \<le> length (buf_data b)"
    using assms(1) n by (simp add: Capacity_def)
  ultimately show "Capacity b' = Capacity b"
    by (simp add: Capacity_def length_subspan_store)
qed

lemma length_fold_update [simp]:
  "length (fold (\<lambda>i d. d[i := f i]) is d) = length d"
  by (induction "is" arbitrary: d) simp_all

lemma cb_ConsumeBuffer_all_props:
  "length (cb_data (cb_ConsumeBuffer_all b xs)) = length (cb_data b)
   \<and> (cb_length b \<le> length (cb_data b) \<longrightarrow>
        cb_length (cb_ConsumeBuffer_all b xs) \<le> length (cb_data b))"
  by (induction b xs rule: cb_ConsumeBuffer_all.induct) simp_all


lemma impulse_peak_fold_index:
  "0 \<le> idx \<Longrightarrow> idx < int n \<or> (idx = 0 \<and> is = []) \<Longrightarrow> \<forall>i\<in>set is. i < n \<Longrightarrow>
    fold (impulse_peak_step params cfg impulse) is (avg, mx, idx) = (avg', mx', idx') \<Longrightarrow>
    0 \<le> idx' \<and> (idx' < int n \<or> idx' = 0)"
proof (induction "is" arbitrary: avg mx idx)
  case Nil
  then show ?case by auto
next
  case (Cons i "is")
  obtain a m j where st: "impulse_peak_step params cfg impulse i (avg, mx, idx) = (a, m, j)"
    by (cases "impulse_peak_step params cfg impulse i (avg, mx, idx)") auto
  have j: "0 \<le> j" "j < int n"
    using st Cons.prems(1,2,3) by (auto simp: impulse_peak_step_def Let_def split: if_splits)
  show ?case
    using Cons.IH [of j a m] j Cons.prems(3,4) st by simp
qed

lemma impulse_peak_returns:
  assumes "0 < nb_fft params" "length impulse = nb_fft params"
  shows "\<exists>avg mx idx. impulse_peak params cfg impulse = Inr (avg, mx, idx)
     \<and> 0 \<le> idx \<and> idx < int (nb_fft params)"
proof -
  obtain a m j where f: "fold (impulse_peak_step params cfg impulse) [0..<nb_fft params]
      (0, impulse ! 0, 0) = (a, m, j)"
    by (cases "fold (impulse_peak_step params cfg impulse) [0..<nb_fft params] (0, impulse ! 0, 0)")
      auto
  have "0 \<le> j \<and> (j < int (nb_fft params) \<or> j = 0)"
    using assms(1) by (intro impulse_peak_fold_index [OF _ _ _ f]) auto
  then have "0 \<le> j \<and> j < int (nb_fft params)" using assms(1) by auto
  moreover have "span_read impulse 0 = Inr (impulse ! 0)"
    using assms by (simp add: span_read_def)
  ultimately show ?thesis using f by (simp add: impulse_peak_def)
qed

lemma fine_time_impulse_response_returns:
  assumes "Capacity (correlation_time_buffer st) = nb_null_period params + nb_symbol_period params"
  shows "\<exists>impulse. fine_time_impulse_response params plans st = Inr impulse
     \<and> length impulse = nb_fft params"
  using assms by (simp add: fine_time_impulse_response_def subspan_def Capacity_def Let_def)

lemma coarse_frequency_response_returns:
  assumes "0 < nb_fft params"
    and "Capacity (correlation_time_buffer st) = nb_null_period params + nb_symbol_period params"
  shows "\<exists>response. coarse_frequency_response params plans st = Inr response
     \<and> length response = nb_fft params"
  using assms
  by (simp add: coarse_frequency_response_def subspan_def Capacity_def Let_def
      CalculateRelativePhase_def CalculateMagnitude_def)



lemma nsp_pos: "wf_params params \<Longrightarrow> 0 < nb_symbol_period params"
  by (simp add: wf_params_def)

lemma step_FindNullPowerDip:
  assumes wf: "wf_params params" and K: "1 \<le> signal_l1_nb_samples cfg"
    and inv: "demod_inv params st" and blk: "block \<noteq> []"
  shows "\<exists>n st'. FindNullPowerDip params cfg st block = Some (n, st')
     \<and> 1 \<le> n \<and> n \<le> length block \<and> demod_inv params st'
     \<and> (state st' = state st \<or> state st' = READING_NULL_AND_PRS)"
proof -
  let ?N = "int (length block)"
  let ?K = "int (signal_l1_nb_samples cfg)"
  have "\<exists>sf ef n. FindNullPowerDip_loop block ?K (?N - ?K)
        (signal_l1_average st * null_l1_search_thresh_null_start cfg)
        (signal_l1_average st * null_l1_search_thresh_null_end cfg) 0
        (is_null_start_found st) (is_null_end_found st) ?N = Some (sf, ef, n)
       \<and> 1 \<le> n \<and> n \<le> ?N"
    using K blk by (intro FindNullPowerDip_loop_returns) (auto simp: Suc_le_eq)
  then obtain sf ef n where l: "FindNullPowerDip_loop block ?K (?N - ?K)
        (signal_l1_average st * null_l1_search_thresh_null_start cfg)
        (signal_l1_average st * null_l1_search_thresh_null_end cfg) 0
        (is_null_start_found st) (is_null_end_found st) ?N = Some (sf, ef, n)"
    and n: "1 \<le> n" "n \<le> ?N" by blast
  let ?dip = "cb_ConsumeBuffer_all (null_power_dip_buffer st) (take (nat n) block)"
  have dip: "length (cb_data ?dip) = nb_null_period params" "cb_length ?dip \<le> nb_null_period params"
    using cb_ConsumeBuffer_all_props [of "null_power_dip_buffer st" "take (nat n) block"] inv
    by (simp_all add: demod_inv_def)
  have nn: "1 \<le> nat n" "nat n \<le> length block" using n by simp_all
  show ?thesis
  proof (cases ef)
    case False
    then show ?thesis
      using l nn dip inv unfolding FindNullPowerDip_def Let_def
      by (auto simp: demod_inv_def Capacity_def IsFull_def)
  next
    case True
    then show ?thesis
      using l nn dip inv nsp_pos [OF wf] unfolding FindNullPowerDip_def Let_def
      by (auto simp: demod_inv_def Capacity_def IsFull_def cb_SetLength0_def)
  qed
qed

lemma step_ReadNullPRS:
  assumes inv: "demod_inv params st" and blk: "block \<noteq> []"
    and s: "state st = READING_NULL_AND_PRS"
  shows "\<exists>n st'. ReadNullPRS st block = (n, st')
     \<and> 1 \<le> n \<and> n \<le> length block \<and> demod_inv params st'"
proof -
  obtain n corr where c: "ConsumeBuffer (correlation_time_buffer st) block = (n, corr)"
    by (cases "ConsumeBuffer (correlation_time_buffer st) block") auto
  have le: "buf_length (correlation_time_buffer st) \<le> Capacity (correlation_time_buffer st)"
    and nf: "buf_length (correlation_time_buffer st) < Capacity (correlation_time_buffer st)"
    using inv s by (simp_all add: demod_inv_def IsFull_def)
  note p = ConsumeBuffer_props [OF le c]
  have n: "1 \<le> n" "n \<le> length block"
    using p(1) nf blk by (simp_all add: Suc_le_eq)
  have b: "buf_length corr \<le> Capacity corr" using p nf by simp
  show ?thesis
    using c n b p(2) inv s unfolding ReadNullPRS_def Let_def
    by (auto simp: demod_inv_def)
qed

lemma step_RunCoarseFreqSync:
  assumes wf: "wf_params params" and inv: "demod_inv params st"
    and s: "state st = RUNNING_COARSE_FREQ_SYNC"
  shows "\<exists>st'. RunCoarseFreqSync params cfg plans st = Inr (0, st')
     \<and> state st' = RUNNING_FINE_TIME_SYNC \<and> demod_inv params st'"
proof (cases "sync_is_coarse_freq_correction cfg")
  case False
  then show ?thesis using inv
    by (simp add: RunCoarseFreqSync_def demod_inv_def)
next
  case True
  have nb: "0 < nb_fft params" using wf by (simp add: wf_params_def)
  have cap: "Capacity (correlation_time_buffer st) = nb_null_period params + nb_symbol_period params"
    using inv by (simp add: demod_inv_def)
  from coarse_frequency_response_returns [OF nb cap]
  obtain response where r: "coarse_frequency_response params plans st = Inr response"
    "length response = nb_fft params" by blast
  from coarse_peak_search_in_bounds [OF nb r(2)]
  obtain v idx where "coarse_peak_search params
      (float_to_int (sync_max_coarse_freq_correction_norm cfg * real (nb_fft params))) response
      = Inr (v, idx)" by blast
  then have "coarse_freq_peak params cfg plans st = Inr (response, v, idx)"
    using r(1) by (simp add: coarse_freq_peak_def)
  then show ?thesis using True inv
    by (simp add: RunCoarseFreqSync_def Let_def UpdateFineFrequencyOffset_def demod_inv_def)
qed

lemma step_RunFineTimeSync:
  assumes wf: "wf_params params" and inv: "demod_inv params st"
    and s: "state st = RUNNING_FINE_TIME_SYNC"
  shows "\<exists>st'. RunFineTimeSync params cfg plans st = Inr (0, st')
     \<and> (state st' = FINDING_NULL_POWER_DIP \<or> state st' = READING_SYMBOLS) \<and> demod_inv params st'"
proof -
  have nb: "0 < nb_fft params" using wf by (simp add: wf_params_def)
  have cap: "Capacity (correlation_time_buffer st) = nb_null_period params + nb_symbol_period params"
    using inv by (simp add: demod_inv_def)
  from fine_time_impulse_response_returns [OF cap]
  obtain impulse where i: "fine_time_impulse_response params plans st = Inr impulse"
    "length impulse = nb_fft params" by blast
  from impulse_peak_returns [OF nb i(2)]
  obtain avg mx idx where p: "impulse_peak params cfg impulse = Inr (avg, mx, idx)"
    "0 \<le> idx" "idx < int (nb_fft params)" by blast
  show ?thesis
  proof (cases "mx - avg < sync_impulse_peak_threshold_db cfg")
    case True
    then show ?thesis using i(1) p(1) inv
      by (simp add: RunFineTimeSync_def Let_def Reset_def SetLength_def demod_inv_def Capacity_def)
  next
    case False
    define offset where "offset = idx - int (nb_cyclic_prefix params)"
    define start where "start = int (nb_null_period params) + offset"
    define len where "len = int (nb_symbol_period params) - offset"
    have b: "0 \<le> start" "0 \<le> len" "nat start + nat len = nb_null_period params + nb_symbol_period params"
      "nat len \<le> nb_symbol_period params + nb_cyclic_prefix params"
      using p(2,3) wf by (auto simp: offset_def start_def len_def wf_params_def)
    define prs_buf where "prs_buf = take (nat len) (drop (nat start) (buf_data (correlation_time_buffer st)))"
    have sub: "int_subspan (buf_data (correlation_time_buffer st)) start len = Inr prs_buf"
      using b cap by (simp add: int_subspan_def subspan_def prs_buf_def Capacity_def)
    have lp: "length prs_buf = nat len"
      using b cap by (simp add: prs_buf_def Capacity_def)
    obtain n inactive where c: "ConsumeBuffer (SetLength 0 (inactive_buffer st)) prs_buf = (n, inactive)"
      by (cases "ConsumeBuffer (SetLength 0 (inactive_buffer st)) prs_buf") auto
    have icap: "Capacity (inactive_buffer st) = frame_size params"
      using inv by (simp add: demod_inv_def)
    have le: "buf_length (SetLength 0 (inactive_buffer st)) \<le> Capacity (SetLength 0 (inactive_buffer st))"
      by (simp add: SetLength_def)
    note q = ConsumeBuffer_props [OF le c]
    have ia: "Capacity inactive = frame_size params" "buf_length inactive < frame_size params"
      using q lp b(4) icap wf by (simp_all add: SetLength_def Capacity_def wf_params_def)
    show ?thesis
      using False i(1) p(1) sub c ia inv
      unfolding RunFineTimeSync_def Let_def offset_def [symmetric] start_def [symmetric]
        len_def [symmetric]
      by (simp add: start_def offset_def len_def demod_inv_def SetLength_def Capacity_def IsFull_def)
  qed
qed

lemma step_ReadSymbols:
  assumes wf: "wf_params params" and inv: "demod_inv params st" and blk: "block \<noteq> []"
    and s: "state st = READING_SYMBOLS"
  shows "\<exists>n st'. ReadSymbols params st block = Inr (n, st')
     \<and> 1 \<le> n \<and> n \<le> length block \<and> demod_inv params st'"
proof -
  obtain n inactive where c: "ConsumeBuffer (inactive_buffer st) block = (n, inactive)"
    by (cases "ConsumeBuffer (inactive_buffer st) block") auto
  have le: "buf_length (inactive_buffer st) \<le> Capacity (inactive_buffer st)"
    and nf: "buf_length (inactive_buffer st) < Capacity (inactive_buffer st)"
    and icap: "Capacity (inactive_buffer st) = frame_size params"
    using inv s by (simp_all add: demod_inv_def IsFull_def)
  note p = ConsumeBuffer_props [OF le c]
  have n: "1 \<le> n" "n \<le> length block"
    using p(1) nf blk by (simp_all add: Suc_le_eq)
  have b: "buf_length inactive \<le> Capacity inactive" "Capacity inactive = frame_size params"
    using p nf icap by simp_all
  show ?thesis
  proof (cases "IsFull inactive")
    case False
    then show ?thesis
      using c n b inv s unfolding ReadSymbols_def Let_def
      by (auto simp: demod_inv_def)
  next
    case True
    define null_sym where "null_sym = take (nb_null_period params)
        (drop (nb_frame_symbols params * nb_symbol_period params) (buf_data inactive))"
    have g: "GetNullSymbol params inactive = Inr null_sym"
      using b(2) by (simp add: GetNullSymbol_def subspan_def Capacity_def frame_size_def
          null_sym_def mult.commute)
    show ?thesis
      using True c n b g inv s nsp_pos [OF wf] unfolding ReadSymbols_def Let_def
      by (auto simp: demod_inv_def Capacity_def IsFull_def)
  qed
qed

lemma Process_step_progress:
  assumes wf: "wf_params params" and K: "1 \<le> signal_l1_nb_samples cfg"
    and inv: "demod_inv params st" and blk: "block \<noteq> []"
  shows "\<exists>n st'. Process_step params cfg plans st block = Some (Inr (n, st'))
     \<and> demod_inv params st' \<and> n \<le> length block
     \<and> (if zero_consumption_state (state st) then n = 0 \<and> state st' \<noteq> state st
          \<and> (state st = RUNNING_FINE_TIME_SYNC \<longrightarrow> \<not> zero_consumption_state (state st'))
        else 1 \<le> n)"
proof (cases "state st")
  case FINDING_NULL_POWER_DIP
  then show ?thesis
    using step_FindNullPowerDip [OF wf K inv blk]
    by (auto simp: Process_step_def zero_consumption_state_def)
next
  case READING_NULL_AND_PRS
  then show ?thesis
    using step_ReadNullPRS [OF inv blk READING_NULL_AND_PRS]
    by (auto simp: Process_step_def zero_consumption_state_def)
next
  case RUNNING_COARSE_FREQ_SYNC
  then show ?thesis
    using step_RunCoarseFreqSync [OF wf inv RUNNING_COARSE_FREQ_SYNC, of cfg plans]
    by (auto simp: Process_step_def zero_consumption_state_def)
next
  case RUNNING_FINE_TIME_SYNC
  then show ?thesis
    using step_RunFineTimeSync [OF wf inv RUNNING_FINE_TIME_SYNC, of cfg plans]
    by (auto simp: Process_step_def zero_consumption_state_def)
next
  case READING_SYMBOLS
  then show ?thesis
    using step_ReadSymbols [OF wf inv blk READING_SYMBOLS]
    by (auto simp: Process_step_def zero_consumption_state_def)
qed


lemma Process_loop_returns:
  assumes wf: "wf_params params" and K: "1 \<le> signal_l1_nb_samples cfg"
  shows "i \<le> length buf \<Longrightarrow> demod_inv params st \<Longrightarrow>
    \<exists>st'. Process_loop params cfg plans buf i st = Some (Inr (length buf, st'))
      \<and> demod_inv params st'"
proof (induction "3 * (length buf - i) + state_rank (state st)" arbitrary: i st rule: less_induct)
  case less
  show ?case
  proof (cases "i < length buf")
    case False
    then have "i = length buf" using less.prems(1) by simp
    then show ?thesis using less.prems(2)
      by (subst Process_loop.simps) simp
  next
    case True
    then have blk: "drop i buf \<noteq> []" by simp
    from Process_step_progress [OF wf K less.prems(2) blk, of plans]
    obtain n st1 where s: "Process_step params cfg plans st (drop i buf) = Some (Inr (n, st1))"
      and inv1: "demod_inv params st1" and n: "n \<le> length (drop i buf)"
      and p: "if zero_consumption_state (state st) then n = 0 \<and> state st1 \<noteq> state st
          \<and> (state st = RUNNING_FINE_TIME_SYNC \<longrightarrow> \<not> zero_consumption_state (state st1))
        else 1 \<le> n"
      by blast
    have le: "i + n \<le> length buf" using n True by simp
    have "state_rank (state st1) \<le> 2"
      by (cases "state st1") (simp_all add: state_rank_def)
    moreover have "state_rank (state st1) < state_rank (state st)"
      if "zero_consumption_state (state st)"
      using that p by (cases "state st"; cases "state st1")
        (simp_all add: state_rank_def zero_consumption_state_def)
    ultimately have dec: "3 * (length buf - (i + n)) + state_rank (state st1)
        < 3 * (length buf - i) + state_rank (state st)"
      using p True by (cases "zero_consumption_state (state st)") auto
    from less.hyps [OF dec le inv1]
    obtain st' where "Process_loop params cfg plans buf (i + n) st1 = Some (Inr (length buf, st'))"
      "demod_inv params st'" by blast
    then show ?thesis using True s
      by (subst Process_loop.simps) simp
  qed
qed


lemma Process_returns:
  assumes "wf_params params"
    and "1 \<le> signal_l1_nb_samples cfg" and "1 \<le> signal_l1_nb_decimate cfg"
    and "demod_inv params st"
  shows "\<exists>st'. Process params cfg plans buf st = Some (Inr (length buf, st'))
     \<and> demod_inv params st'"
proof -
  from UpdateSignalAverage_returns [OF assms(2,3), of buf st]
  obtain a where u: "UpdateSignalAverage cfg buf st = Some (st\<lparr>signal_l1_average := a\<rparr>)"
    by blast
  have "demod_inv params (st\<lparr>signal_l1_average := a\<rparr>)"
    using assms(4) by (simp add: demod_inv_def)
  from Process_loop_returns [OF assms(1,2) _ this, of 0 buf plans]
  show ?thesis using u by (simp add: Process_def)
qed

lemma ex_wf: "wf_params example_params"
  by (simp add: wf_params_def example_params_def frame_size_def)

lemma ex_inv: "demod_inv example_params example_state"
  by (simp add: demod_inv_def example_params_def example_state_def frame_size_def
      Capacity_def IsFull_def)

lemma ex_init:
  "\<exists>st0. OFDM_Demod_init example_params example_plans [1, 1, 1, 1] = Inr st0"
  by (simp add: OFDM_Demod_init_def CalculateRelativePhase_def example_params_def)

lemma ex_Process:
  "\<exists>st'. Process example_params example_cfg example_plans [1, 0, 0, 1] example_state
     = Some (Inr (4, st'))"
  using Process_returns [OF ex_wf _ _ ex_inv, of example_cfg example_plans "[1, 0, 0, 1]"]
  by (auto simp: example_cfg_def)




subsection \<open>The range of the fine frequency offset\<close>

lemma UpdateFineFrequencyOffset_bound:
  "0 < nb_fft params \<Longrightarrow>
    \<bar>freq_fine_offset (UpdateFineFrequencyOffset params delta st)\<bar> < fft_bin_wrap params"
  by (simp add: UpdateFineFrequencyOffset_def c_fmod_bound fft_bin_wrap_pos)

lemma fine_offset_in_range_iff:
  "fine_offset_in_range params st \<longleftrightarrow> \<bar>freq_fine_offset st\<bar> \<le> fft_bin_wrap params"
  by (auto simp: fine_offset_in_range_def fft_bin_wrap_def)

lemma in_range_Update:
  "0 < nb_fft params \<Longrightarrow> fine_offset_in_range params (UpdateFineFrequencyOffset params delta st)"
  using UpdateFineFrequencyOffset_bound [of params delta st]
  by (simp add: fine_offset_in_range_iff)

lemma in_range_Reset: "0 < nb_fft params \<Longrightarrow> fine_offset_in_range params (Reset st)"
  by (simp add: fine_offset_in_range_def Reset_def)

lemma in_range_init:
  "0 < nb_fft params \<Longrightarrow> OFDM_Demod_init params plans prs_fft_ref = Inr st0 \<Longrightarrow>
    fine_offset_in_range params st0"
  by (auto simp: fine_offset_in_range_def OFDM_Demod_init_def bindE_def split: sum.splits)

lemma in_range_Coordinator:
  "0 < nb_fft params \<Longrightarrow> fine_offset_in_range params (CoordinatorThread params cfg errs st)"
  using in_range_Update [of params "Coordinator_delta params cfg errs" st]
  by (simp add: CoordinatorThread_def Let_def fine_offset_in_range_def)

lemma fine_FindNullPowerDip:
  "FindNullPowerDip params cfg st buf = Some (n, st') \<Longrightarrow> freq_fine_offset st' = freq_fine_offset st"
  by (auto simp: FindNullPowerDip_def Let_def split: option.splits if_splits prod.splits)

lemma fine_ReadNullPRS:
  "ReadNullPRS st buf = (n, st') \<Longrightarrow> freq_fine_offset st' = freq_fine_offset st"
  by (auto simp: ReadNullPRS_def Let_def split: prod.splits if_splits)

lemma fine_ReadSymbols:
  "ReadSymbols params st buf = Inr (n, st') \<Longrightarrow> freq_fine_offset st' = freq_fine_offset st"
  by (auto simp: ReadSymbols_def Let_def bindE_def split: prod.splits if_splits sum.splits)

lemma in_range_RunCoarseFreqSync:
  "0 < nb_fft params \<Longrightarrow> fine_offset_in_range params st \<Longrightarrow>
    RunCoarseFreqSync params cfg plans st = Inr (n, st') \<Longrightarrow> fine_offset_in_range params st'"
  using in_range_Update [of params]
  by (auto simp: RunCoarseFreqSync_def Let_def bindE_def fine_offset_in_range_def
      split: prod.splits if_splits sum.splits)

lemma in_range_RunFineTimeSync:
  "0 < nb_fft params \<Longrightarrow> fine_offset_in_range params st \<Longrightarrow>
    RunFineTimeSync params cfg plans st = Inr (n, st') \<Longrightarrow> fine_offset_in_range params st'"
  by (auto simp: RunFineTimeSync_def Let_def bindE_def fine_offset_in_range_def Reset_def
      split: prod.splits if_splits sum.splits)

lemma in_range_Process_step:
  assumes "0 < nb_fft params" "fine_offset_in_range params st"
    and "Process_step params cfg plans st block = Some (Inr (n, st'))"
  shows "fine_offset_in_range params st'"
proof (cases "state st")
  case FINDING_NULL_POWER_DIP
  then show ?thesis using assms fine_FindNullPowerDip [of params cfg st block n st']
    by (auto simp: Process_step_def fine_offset_in_range_def)
next
  case READING_NULL_AND_PRS
  then show ?thesis using assms fine_ReadNullPRS [of st block n st']
    by (auto simp: Process_step_def fine_offset_in_range_def)
next
  case RUNNING_COARSE_FREQ_SYNC
  then show ?thesis using assms in_range_RunCoarseFreqSync [of params st cfg plans n st']
    by (auto simp: Process_step_def)
next
  case RUNNING_FINE_TIME_SYNC
  then show ?thesis using assms in_range_RunFineTimeSync [of params st cfg plans n st']
    by (auto simp: Process_step_def)
next
  case READING_SYMBOLS
  then show ?thesis using assms fine_ReadSymbols [of params st block n st']
    by (auto simp: Process_step_def fine_offset_in_range_def)
qed

lemma in_range_Process_loop:
  assumes "Process_loop params cfg plans buf i st = Some y"
  shows "0 < nb_fft params \<longrightarrow> fine_offset_in_range params st \<longrightarrow>
     (\<forall>n st'. y = Inr (n, st') \<longrightarrow> fine_offset_in_range params st')"
proof (rule Process_loop.raw_induct [where P = "\<lambda>params cfg plans buf i st y.
     0 < nb_fft params \<longrightarrow> fine_offset_in_range params st \<longrightarrow>
     (\<forall>n st'. y = Inr (n, st') \<longrightarrow> fine_offset_in_range params st')", OF _ assms])
  fix loop params cfg plans buf i st y
  assume IH: "\<And>params cfg plans buf i st y. loop params cfg plans buf i st = Some y \<Longrightarrow>
     0 < nb_fft params \<longrightarrow> fine_offset_in_range params st \<longrightarrow>
     (\<forall>n st'. y = Inr (n, st') \<longrightarrow> fine_offset_in_range params st')"
    and body: "(if i < length buf
      then case Process_step params cfg plans st (drop i buf) of
           None \<Rightarrow> None | Some (Inl e) \<Rightarrow> Some (Inl e)
           | Some (Inr (nb_read, st')) \<Rightarrow> loop params cfg plans buf (i + nb_read) st'
      else Some (Inr (i, st))) = Some y"
  show "0 < nb_fft params \<longrightarrow> fine_offset_in_range params st \<longrightarrow>
     (\<forall>n st'. y = Inr (n, st') \<longrightarrow> fine_offset_in_range params st')"
  proof (intro impI allI)
    fix n st'
    assume nb: "0 < nb_fft params" and r: "fine_offset_in_range params st" and y: "y = Inr (n, st')"
    show "fine_offset_in_range params st'"
    proof (cases "i < length buf")
      case False
      then show ?thesis using body y r by simp
    next
      case True
      then obtain k st1 where s: "Process_step params cfg plans st (drop i buf) = Some (Inr (k, st1))"
        and l: "loop params cfg plans buf (i + k) st1 = Some y"
        using body y by (auto split: option.splits sum.splits)
      have "fine_offset_in_range params st1"
        by (rule in_range_Process_step [OF nb r s])
      then show ?thesis using IH [OF l] nb y by blast
    qed
  qed
qed

lemma fine_UpdateSignalAverage:
  "UpdateSignalAverage cfg buf st = Some st1 \<Longrightarrow> freq_fine_offset st1 = freq_fine_offset st"
  by (auto simp: UpdateSignalAverage_def Let_def split: if_splits)

text \<open>
  C2. With \<open>0 < nb_fft\<close>, \<open>freq_fine_offset\<close> lies in
  \<open>[-0.5 / nb_fft * 1.01, +0.5 / nb_fft * 1.01]\<close> after construction, after every call of
  \<^verbatim>\<open>UpdateFineFrequencyOffset\<close> (from any state and with any \<open>delta\<close>), after every
  \<^verbatim>\<open>Reset\<close>, after every update by the coordinator, and a call of \<^verbatim>\<open>Process\<close> that
  starts within the interval ends within it.
\<close>

theorem freq_fine_offset_in_range:
  assumes "0 < nb_fft params"
  shows "(OFDM_Demod_init params plans prs_fft_ref = Inr st0 \<longrightarrow> fine_offset_in_range params st0)
     \<and> fine_offset_in_range params (UpdateFineFrequencyOffset params delta st)
     \<and> fine_offset_in_range params (Reset st)
     \<and> fine_offset_in_range params (CoordinatorThread params cfg phase_errors st)
     \<and> (fine_offset_in_range params st \<and> Process params cfg plans buf st = Some (Inr (n, st'))
          \<longrightarrow> fine_offset_in_range params st')"
proof (intro conjI impI)
  assume "fine_offset_in_range params st \<and> Process params cfg plans buf st = Some (Inr (n, st'))"
  then obtain st1 where r: "fine_offset_in_range params st"
    and u: "UpdateSignalAverage cfg buf st = Some st1"
    and l: "Process_loop params cfg plans buf 0 st1 = Some (Inr (n, st'))"
    by (auto simp: Process_def split: option.splits)
  have "fine_offset_in_range params st1"
    using r fine_UpdateSignalAverage [OF u] by (simp add: fine_offset_in_range_def)
  then show "fine_offset_in_range params st'"
    using in_range_Process_loop [OF l] assms by blast
qed (use assms in \<open>simp_all add: in_range_init in_range_Update in_range_Reset in_range_Coordinator\<close>)

theorem freq_fine_offset_in_range_witness:
  "0 < nb_fft example_params
   \<and> (\<exists>st0. OFDM_Demod_init example_params example_plans [1, 1, 1, 1] = Inr st0
          \<and> fine_offset_in_range example_params st0)
   \<and> fine_offset_in_range example_params (UpdateFineFrequencyOffset example_params 1 example_state)
   \<and> fine_offset_in_range example_params (Reset example_state)
   \<and> fine_offset_in_range example_params
        (CoordinatorThread example_params example_cfg [1, 2] example_state)
   \<and> fine_offset_in_range example_params example_state
   \<and> (\<exists>st'. Process example_params example_cfg example_plans [1, 0, 0, 1] example_state
          = Some (Inr (4, st'))
        \<and> fine_offset_in_range example_params st')"
proof -
  have h: "0 < nb_fft example_params" by (simp add: example_params_def)
  have r: "fine_offset_in_range example_params example_state"
    by (simp add: fine_offset_in_range_def example_state_def)
  obtain st0 where i: "OFDM_Demod_init example_params example_plans [1, 1, 1, 1] = Inr st0"
    using ex_init by blast
  obtain st' where p: "Process example_params example_cfg example_plans [1, 0, 0, 1] example_state
      = Some (Inr (4, st'))"
    using ex_Process by blast
  show ?thesis
    using h r i p freq_fine_offset_in_range [OF h, where delta = 1 and st = example_state
        and cfg = example_cfg and phase_errors = "[1, 2]" and plans = example_plans
        and prs_fft_ref = "[1, 1, 1, 1]" and ?st0.0 = st0 and buf = "[1, 0, 0, 1]" and n = 4
        and st' = st']
    by blast
qed

subsection \<open>The fine frequency update of the coordinator\<close>

lemma fold_plus_sum_list: "fold (\<lambda>x (acc::real). acc + f x) xs a = a + sum_list (map f xs)"
  by (induction xs arbitrary: a) simp_all

lemma PipelineThread_phase_error_sum:
  "PipelineThread_phase_error params p symbols =
     sum_list (map (\<lambda>i. CalculateCyclicPhaseError params (symbols ! i))
       [symbol_start p..<min (symbol_end p) (nb_frame_symbols params)])"
  by (simp add: PipelineThread_phase_error_def Let_def fold_plus_sum_list)

lemma sum_list_upt_split:
  "s \<le> e \<Longrightarrow> sum_list (map f [s..<min e n]) + sum_list (map f [e..<n]) = sum_list (map (f :: nat \<Rightarrow> real) [s..<n])"
proof (cases "e \<le> n")
  case True
  assume "s \<le> e"
  then have "[s..<n] = [s..<e] @ [e..<n]" using True
    by (metis le_Suc_ex upt_add_eq_append)
  then show ?thesis using True by (simp add: min_def)
next
  case False
  then show ?thesis by (simp add: min_def)
qed

lemma ceiling_div_bounds:
  assumes "0 \<le> r" "0 < t"
  shows "0 \<le> \<lceil>real_of_int r / real_of_int t\<rceil>" "\<lceil>real_of_int r / real_of_int t\<rceil> \<le> r"
proof -
  show "0 \<le> \<lceil>real_of_int r / real_of_int t\<rceil>"
  proof -
    have "0 \<le> real_of_int r / real_of_int t" using assms by simp
    then show ?thesis by (metis ceiling_mono ceiling_zero)
  qed
  have "real_of_int r / real_of_int t \<le> real_of_int r"
    using assms by (simp add: field_simps mult_le_cancel_left1)
  then show "\<lceil>real_of_int r / real_of_int t\<rceil> \<le> r"
    by (simp add: ceiling_le_iff)
qed

lemma CreateThreads_loop_covers:
  fixes f :: "nat \<Rightarrow> real"
  shows "i < nb_threads \<Longrightarrow> s \<le> nfs + 1 \<Longrightarrow>
    sum_list (map (\<lambda>p. sum_list (map f [symbol_start p..<min (symbol_end p) nfs]))
       (CreateThreads_loop (nfs + 1) nb_threads i s))
     = sum_list (map f [s..<nfs])"
proof (induction "nb_threads - i" arbitrary: i s)
  case 0
  then show ?case by simp
next
  case (Suc m)
  have m: "m = nb_threads - (i + 1)" using Suc(2) by simp
  show ?case
  proof (cases "int i = int nb_threads - 1")
    case True
    then have "i + 1 = nb_threads" by simp
    then have "CreateThreads_loop (nfs + 1) nb_threads (i + 1) (nfs + 1) = []"
      by (subst CreateThreads_loop.simps) simp
    then show ?thesis using True Suc.prems
      by (subst CreateThreads_loop.simps) (simp add: Let_def)
  next
    case False
    then have i1: "i + 1 < nb_threads" using Suc.prems by simp
    define n where "n = \<lceil>real_of_int (int (nfs + 1) - int s) / real_of_int (int nb_threads - int i)\<rceil>"
    define e where "e = nat (int s + n)"
    have n: "0 \<le> n" "n \<le> int (nfs + 1) - int s"
      using ceiling_div_bounds [of "int (nfs + 1) - int s" "int nb_threads - int i"] Suc.prems
      by (simp_all add: n_def)
    then have e: "s \<le> e" "e \<le> nfs + 1" by (simp_all add: e_def)
    have IH: "sum_list (map (\<lambda>p. sum_list (map f [symbol_start p..<min (symbol_end p) nfs]))
       (CreateThreads_loop (nfs + 1) nb_threads (i + 1) e)) = sum_list (map f [e..<nfs])"
      by (rule Suc.hyps(1) [OF m i1 e(2)])
    have "CreateThreads_loop (nfs + 1) nb_threads i s =
        \<lparr>symbol_start = s, symbol_end = e\<rparr> # CreateThreads_loop (nfs + 1) nb_threads (i + 1) e"
      using Suc.prems False
      by (subst CreateThreads_loop.simps) (simp add: Let_def n_def e_def)
    then show ?thesis
      using IH sum_list_upt_split [OF e(1), of f nfs] by simp
  qed
qed

lemma CreateThreads_nonempty:
  "CreateThreads params nb_desired_threads total_system_threads \<noteq> []
     \<longleftrightarrow> 0 < nb_desired_threads \<or> 0 < total_system_threads"
proof -
  have "length (CreateThreads params nb_desired_threads total_system_threads)
      = nat (nb_pipeline_threads params nb_desired_threads total_system_threads)"
    by (simp add: CreateThreads_def length_CreateThreads_loop)
  moreover have "0 < nb_pipeline_threads params nb_desired_threads total_system_threads
      \<longleftrightarrow> 0 < nb_desired_threads \<or> 0 < total_system_threads"
    by (auto simp: nb_pipeline_threads_def Let_def)
  ultimately show ?thesis by (metis length_greater_0_conv zero_less_nat_eq)
qed

lemma UpdateFineFrequencyOffset_accesses_ok:
  "stores_under_mutex False (UpdateFineFrequencyOffset_accesses params delta st)"
  "stored_freq_fine_offset (freq_fine_offset st) (UpdateFineFrequencyOffset_accesses params delta st)
     = freq_fine_offset (UpdateFineFrequencyOffset params delta st)"
  by (simp_all add: UpdateFineFrequencyOffset_accesses_def UpdateFineFrequencyOffset_def Let_def)

lemma c_atan2_values: "c_atan2 0 1 = 0" "c_atan2 1 0 = pi / 2"
proof -
  show "c_atan2 0 1 = 0"
    unfolding c_atan2_def by (rule cis_Arg_unique) (simp_all add: complex_eq_iff sgn_eq cmod_def)
  show "c_atan2 1 0 = pi / 2"
    unfolding c_atan2_def by (rule cis_Arg_unique) (simp_all add: complex_eq_iff sgn_eq cmod_def)
qed

lemma ex_phase_errors:
  "CalculateCyclicPhaseError example_params (example_symbols ! 0) = 0"
  "CalculateCyclicPhaseError example_params (example_symbols ! 1) = pi / 2"
proof -
  have v: "complex_conj_mul_sum [1] [1] = 1" "complex_conj_mul_sum [1] [\<i>] = \<i>"
    by (simp_all add: complex_conj_mul_sum_def)
  show "CalculateCyclicPhaseError example_params (example_symbols ! 0) = 0"
    by (simp add: CalculateCyclicPhaseError_def example_params_def example_symbols_def
        Let_def v c_atan2_values)
  show "CalculateCyclicPhaseError example_params (example_symbols ! 1) = pi / 2"
    by (simp add: CalculateCyclicPhaseError_def example_params_def example_symbols_def
        Let_def v c_atan2_values)
qed

lemma CreateThreads_covers:
  fixes f :: "nat \<Rightarrow> real"
  assumes "0 < nb_desired_threads \<or> 0 < total_system_threads"
  shows "sum_list (map (\<lambda>p. sum_list (map f [symbol_start p..<min (symbol_end p) (nb_frame_symbols params)]))
       (CreateThreads params nb_desired_threads total_system_threads))
     = sum_list (map f [0..<nb_frame_symbols params])"
proof -
  have "0 < nb_pipeline_threads params nb_desired_threads total_system_threads"
    using assms by (auto simp: nb_pipeline_threads_def Let_def)
  then have "0 < nat (nb_pipeline_threads params nb_desired_threads total_system_threads)"
    by simp
  then show ?thesis
    unfolding CreateThreads_def
    by (intro CreateThreads_loop_covers) simp_all
qed

lemma Coordinator_delta_eq:
  "Coordinator_delta params cfg phase_errors =
     - sync_fine_freq_update_beta cfg * (1 / real (nb_fft params))
       * (sum_list phase_errors / real (nb_frame_symbols params)) / (2 * pi)"
  using fold_plus_sum_list [of "\<lambda>x. x" phase_errors 0]
  by (simp add: Coordinator_delta_def CalculateFineFrequencyError_def TWO_PI_def Let_def)

text \<open>
  C4, as the code has it. When \<^verbatim>\<open>CreateThreads\<close> made at least one worker (a positive
  \<open>nb_desired_threads\<close>, or a positive \<open>hardware_concurrency\<close> in automatic mode), for the
  phase errors the workers stored for a frame: the delta the coordinator applies is
  \<open>-fine_freq_update_beta * (1 / nb_fft) * avg_cyclic_error / (2 * pi)\<close> with
  \<open>avg_cyclic_error\<close> the sum of the stored values divided by \<open>nb_frame_symbols\<close>; that sum
  is the sum of the cyclic phase errors of the symbols \<open>0 \<dots> nb_frame_symbols - 1\<close>, so the
  quotient is their mean; the two stores to \<open>freq_fine_offset\<close> are made with the mutex
  held, which is taken before them and released after; and the value stored last, the new
  offset, is the \<open>fmod\<close> of the old one plus the delta by \<open>0.5 * (1 / nb_fft) * 1.01\<close>,
  within that bound.
\<close>

theorem Coordinator_fine_frequency_update:
  assumes "0 < nb_fft params"
    and "0 < nb_desired_threads \<or> 0 < total_system_threads"
    and "phase_errors = map (\<lambda>p. PipelineThread_phase_error params p symbols)
           (CreateThreads params nb_desired_threads total_system_threads)"
  shows "Coordinator_delta params cfg phase_errors =
       - sync_fine_freq_update_beta cfg * (1 / real (nb_fft params))
         * (sum_list phase_errors / real (nb_frame_symbols params)) / (2 * pi)
     \<and> sum_list phase_errors
         = (\<Sum>s<nb_frame_symbols params. CalculateCyclicPhaseError params (symbols ! s))
     \<and> stores_under_mutex False
          (UpdateFineFrequencyOffset_accesses params (Coordinator_delta params cfg phase_errors) st)
     \<and> stored_freq_fine_offset (freq_fine_offset st)
          (UpdateFineFrequencyOffset_accesses params (Coordinator_delta params cfg phase_errors) st)
         = freq_fine_offset (CoordinatorThread params cfg phase_errors st)
     \<and> freq_fine_offset (CoordinatorThread params cfg phase_errors st)
         = c_fmod (freq_fine_offset st + Coordinator_delta params cfg phase_errors)
             (0.5 * (1 / real (nb_fft params)) * 1.01)
     \<and> \<bar>freq_fine_offset (CoordinatorThread params cfg phase_errors st)\<bar>
         \<le> 0.5 * (1 / real (nb_fft params)) * 1.01"
proof (intro conjI)
  show "Coordinator_delta params cfg phase_errors =
       - sync_fine_freq_update_beta cfg * (1 / real (nb_fft params))
         * (sum_list phase_errors / real (nb_frame_symbols params)) / (2 * pi)"
    by (rule Coordinator_delta_eq)
next
  have "sum_list phase_errors
      = sum_list (map (\<lambda>s. CalculateCyclicPhaseError params (symbols ! s)) [0..<nb_frame_symbols params])"
    unfolding assms(3) map_map comp_def PipelineThread_phase_error_sum
    by (rule CreateThreads_covers [OF assms(2)])
  also have "\<dots> = (\<Sum>s<nb_frame_symbols params. CalculateCyclicPhaseError params (symbols ! s))"
    by (simp add: sum_list_sum_nth atLeast0LessThan)
  finally show "sum_list phase_errors
      = (\<Sum>s<nb_frame_symbols params. CalculateCyclicPhaseError params (symbols ! s))" .
next
  show "stores_under_mutex False
          (UpdateFineFrequencyOffset_accesses params (Coordinator_delta params cfg phase_errors) st)"
    by (rule UpdateFineFrequencyOffset_accesses_ok)
next
  show "stored_freq_fine_offset (freq_fine_offset st)
          (UpdateFineFrequencyOffset_accesses params (Coordinator_delta params cfg phase_errors) st)
         = freq_fine_offset (CoordinatorThread params cfg phase_errors st)"
    by (simp add: UpdateFineFrequencyOffset_accesses_ok CoordinatorThread_def Let_def)
next
  show "freq_fine_offset (CoordinatorThread params cfg phase_errors st)
         = c_fmod (freq_fine_offset st + Coordinator_delta params cfg phase_errors)
             (0.5 * (1 / real (nb_fft params)) * 1.01)"
    by (simp add: CoordinatorThread_def UpdateFineFrequencyOffset_def fft_bin_wrap_def Let_def
        mult.commute)
next
  show "\<bar>freq_fine_offset (CoordinatorThread params cfg phase_errors st)\<bar>
         \<le> 0.5 * (1 / real (nb_fft params)) * 1.01"
  proof -
    have "\<bar>freq_fine_offset (CoordinatorThread params cfg phase_errors st)\<bar> < fft_bin_wrap params"
      using assms(1)
      by (simp add: CoordinatorThread_def UpdateFineFrequencyOffset_def Let_def c_fmod_bound
          fft_bin_wrap_pos)
    then show ?thesis by (simp add: fft_bin_wrap_def)
  qed
qed

theorem Coordinator_fine_frequency_update_witness:
  "0 < nb_fft example_params
   \<and> (0::int) < 2
   \<and> sum_list (map (\<lambda>p. PipelineThread_phase_error example_params p example_symbols)
         (CreateThreads example_params 2 4))
       = (\<Sum>s<nb_frame_symbols example_params.
            CalculateCyclicPhaseError example_params (example_symbols ! s))
   \<and> stores_under_mutex False
        (UpdateFineFrequencyOffset_accesses example_params
          (Coordinator_delta example_params example_cfg
            (map (\<lambda>p. PipelineThread_phase_error example_params p example_symbols)
              (CreateThreads example_params 2 4))) example_state)
   \<and> \<bar>freq_fine_offset (CoordinatorThread example_params example_cfg
         (map (\<lambda>p. PipelineThread_phase_error example_params p example_symbols)
           (CreateThreads example_params 2 4)) example_state)\<bar>
       \<le> 0.5 * (1 / real (nb_fft example_params)) * 1.01"
proof -
  have h: "0 < nb_fft example_params" by (simp add: example_params_def)
  have w: "(0::int) < 2 \<or> (0::nat) < 4" by simp
  have t: "(0::int) < 2" by simp
  show ?thesis
    using h t Coordinator_fine_frequency_update [OF h w refl, where cfg = example_cfg
        and st = example_state and symbols = example_symbols]
    by blast
qed

text \<open>In automatic mode on a system whose \<^verbatim>\<open>hardware_concurrency()\<close> is 0 (the value the
  standard gives when the number is not computable) \<^verbatim>\<open>CreateThreads\<close> makes no worker.
  The coordinator then sums nothing: the quotient and the delta are 0, while the cyclic
  phase errors of the two symbols of the example frame are \<open>0\<close> and \<open>pi / 2\<close>, of mean
  \<open>pi / 4\<close>.\<close>

theorem Coordinator_no_worker_counterexample:
  "CreateThreads example_params 0 0 = []
   \<and> sum_list (map (\<lambda>p. PipelineThread_phase_error example_params p example_symbols)
         (CreateThreads example_params 0 0)) / real (nb_frame_symbols example_params) = 0
   \<and> (\<Sum>s<nb_frame_symbols example_params.
          CalculateCyclicPhaseError example_params (example_symbols ! s))
        / real (nb_frame_symbols example_params) = pi / 4
   \<and> Coordinator_delta example_params example_cfg
        (map (\<lambda>p. PipelineThread_phase_error example_params p example_symbols)
          (CreateThreads example_params 0 0)) = 0
   \<and> - sync_fine_freq_update_beta example_cfg * (1 / real (nb_fft example_params))
        * (pi / 4) / (2 * pi) = - (9 / 320)"
proof -
  have c: "CreateThreads example_params 0 0 = []"
    using CreateThreads_nonempty [of example_params 0 0] by simp
  have n: "nb_frame_symbols example_params = 2" by (simp add: example_params_def)
  have s: "(\<Sum>s<nb_frame_symbols example_params.
          CalculateCyclicPhaseError example_params (example_symbols ! s)) = pi / 2"
    unfolding n using ex_phase_errors by (simp add: lessThan_Suc numeral_2_eq_2)
  have d: "Coordinator_delta example_params example_cfg [] = 0"
    by (simp add: Coordinator_delta_eq)
  show ?thesis
    unfolding c s using d by (simp add: example_cfg_def example_params_def)
qed

end
